theory Spec2Isabelle
  imports Main
begin

section \<open>The election ledger: data model\<close>

text \<open>
  The development embeds the classes \<^verbatim>\<open>Block\<close> and \<^verbatim>\<open>Blockchain\<close> of the backend
  (\<^verbatim>\<open>src/core/blockchain.js\<close>; the same two classes are repeated in
  \<^verbatim>\<open>blockchain_server.js\<close>).

  Two functions the code calls are library code and not part of the repository: the
  digest \<^verbatim>\<open>SHA256(...).toString()\<close> of crypto-js and the built-in \<^verbatim>\<open>JSON.stringify\<close>.
  Both are taken as parameters, collected in the record \<open>lib\<close>; every theorem holds for
  every digest and every serialiser.

  Voter ids, candidate ids, addresses and timestamps are strings, for which the test
  \<^verbatim>\<open>!x\<close> of the code is \<open>x = []\<close>. The clock \<^verbatim>\<open>Date.now().toString()\<close> is an input of
  the operations that read it.
\<close>

subsection \<open>Transactions, blocks, the heap of arrays\<close>

text \<open>
  A transaction is an object literal whose field \<^verbatim>\<open>type\<close> is \<^verbatim>\<open>'vote'\<close> or
  \<^verbatim>\<open>'miningReward'\<close>. \<open>Vote v c t\<close> is \<^verbatim>\<open>{voterId: v, candidateId: c, timestamp: t, type: 'vote'}\<close>
  and \<open>MiningReward a n t\<close> is
  \<^verbatim>\<open>{fromAddress: null, toAddress: a, amount: n, timestamp: t, type: 'miningReward'}\<close>.
  No code of the repository assigns to a field of a transaction once it is built, so
  transactions are values.
\<close>

datatype transaction =
    Vote string string string
  | MiningReward string int string

text \<open>
  Arrays of transactions are mutated in place (\<^verbatim>\<open>push\<close>) and can be shared, so they
  live in a heap: an address names an array, \<open>heap s a\<close> is its current content, and
  \<open>nextAddr s\<close> is the next unused address. The field \<^verbatim>\<open>data\<close> of a block is either
  the string of the genesis block or a reference to an array.
\<close>

type_synonym addr = nat

datatype block_data = DataString string | DataArray addr

text \<open>What \<^verbatim>\<open>JSON.stringify\<close> is applied to: the value behind \<^verbatim>\<open>this.data\<close>.\<close>

datatype data_value = ValString string | ValArray "transaction list"

record lib =
  SHA256 :: "string \<Rightarrow> string"
  JSON_stringify :: "data_value \<Rightarrow> string"

record block =
  index :: nat
  timestamp :: string
  data :: block_data
  previousHash :: string
  nonce :: nat
  hash :: string

record candidate =
  id_c :: string
  name_c :: string

record blockchain =
  heap :: "addr \<Rightarrow> transaction list"
  nextAddr :: addr
  chain :: "block list"
  difficulty :: nat
  pendingTransactions :: addr
  miningReward :: int
  votedUsers :: "string set"
  registeredVoters :: "string set"
  candidates :: "candidate list"
  isElectionOpen :: bool
  isLoaded :: bool

text \<open>
  The errors the code throws, named as in the specification:
  \<^item> \<open>ElectionClosed\<close>: \<^verbatim>\<open>'Election is currently closed. Votes cannot be cast.'\<close>
  \<^item> \<open>InvalidInput\<close>: \<^verbatim>\<open>'Invalid vote: voterId and candidateId are required.'\<close>,
    \<^verbatim>\<open>'Voter ID cannot be empty.'\<close>, \<^verbatim>\<open>'Status must be a boolean (true/false).'\<close>
  \<^item> \<open>UnknownCandidate\<close>: \<^verbatim>\<open>Invalid vote: Candidate '...' not found.\<close>
  \<^item> \<open>VoterNotRegistered\<close>: \<^verbatim>\<open>Voter '...' is not registered or not eligible to vote.\<close>
  \<^item> \<open>DuplicateVote\<close>: \<^verbatim>\<open>Voter '...' has already cast a vote.\<close>
  \<^item> \<open>FailedToSaveBlock\<close>: \<^verbatim>\<open>'Failed to save block to database.'\<close>
  \<^item> \<open>TypeError\<close>: reading \<^verbatim>\<open>.hash\<close> of \<^verbatim>\<open>undefined\<close>, when the chain is empty.
\<close>

datatype error =
    ElectionClosed
  | InvalidInput
  | UnknownCandidate
  | VoterNotRegistered
  | DuplicateVote
  | FailedToSaveBlock
  | TypeError

subsection \<open>Class Block\<close>

text \<open>
  Number to string, as \<^verbatim>\<open>+\<close> between a number and a string does it for the
  non-negative integers below \<open>10^21\<close>: the decimal digits.
\<close>

definition digit :: "nat \<Rightarrow> char" where
  "digit n = ''0123456789'' ! n"

function dec :: "nat \<Rightarrow> string" where
  "dec n = (if n < 10 then [digit n] else dec (n div 10) @ [digit (n mod 10)])"
  by pat_completeness auto
termination
  by (relation "measure id") auto

definition data_of :: "(addr \<Rightarrow> transaction list) \<Rightarrow> block_data \<Rightarrow> data_value" where
  "data_of h d = (case d of DataString x \<Rightarrow> ValString x | DataArray a \<Rightarrow> ValArray (h a))"

text \<open>
  \<^verbatim>\<open>calculateHash() { return SHA256(this.index + this.previousHash + this.timestamp
     + JSON.stringify(this.data) + this.nonce).toString(); }\<close>
\<close>

definition calculateHash :: "lib \<Rightarrow> (addr \<Rightarrow> transaction list) \<Rightarrow> block \<Rightarrow> string" where
  "calculateHash L h b =
     SHA256 L (dec (index b) @ previousHash b @ timestamp b
               @ JSON_stringify L (data_of h (data b)) @ dec (nonce b))"

text \<open>
  The constructor. Its last parameter \<^verbatim>\<open>hash = null\<close> is optional, and
  \<^verbatim>\<open>this.hash = hash || this.calculateHash()\<close> takes the computed hash when the given
  one is absent or the empty string.
\<close>

definition Block ::
  "lib \<Rightarrow> (addr \<Rightarrow> transaction list) \<Rightarrow> nat \<Rightarrow> string \<Rightarrow> block_data \<Rightarrow> string \<Rightarrow> nat
     \<Rightarrow> string option \<Rightarrow> block" where
  "Block L h i t d p n hopt =
     (let this = \<lparr>index = i, timestamp = t, data = d, previousHash = p, nonce = n, hash = []\<rparr>
      in this\<lparr>hash := (case hopt of
                          None \<Rightarrow> calculateHash L h this
                        | Some x \<Rightarrow> if x = [] then calculateHash L h this else x)\<rparr>)"

text \<open>
  \<^verbatim>\<open>while (this.hash.substring(0, difficulty) !== Array(difficulty + 1).join("0"))
     { this.nonce++; this.hash = this.calculateHash(); }\<close>
  The loop need not end, so the result is optional: \<open>None\<close> is a run that never returns.
\<close>

partial_function (option) mineBlock ::
  "lib \<Rightarrow> (addr \<Rightarrow> transaction list) \<Rightarrow> nat \<Rightarrow> block \<Rightarrow> block option" where
  "mineBlock L h d b =
     (if take d (hash b) \<noteq> replicate d (CHR ''0'')
      then mineBlock L h d
             (b\<lparr>nonce := nonce b + 1,
                hash := calculateHash L h (b\<lparr>nonce := nonce b + 1\<rparr>)\<rparr>)
      else Some b)"

subsection \<open>Class Blockchain\<close>

text \<open>Allocation of a new array (an array literal, or the result of \<^verbatim>\<open>JSON.parse\<close>).\<close>

definition newArray :: "transaction list \<Rightarrow> blockchain \<Rightarrow> addr \<times> blockchain" where
  "newArray xs s =
     (nextAddr s, s\<lparr>heap := (heap s)(nextAddr s := xs), nextAddr := Suc (nextAddr s)\<rparr>)"

text \<open>\<^verbatim>\<open>a.push(x)\<close> on the array at address \<open>a\<close>.\<close>

definition push :: "addr \<Rightarrow> transaction \<Rightarrow> blockchain \<Rightarrow> blockchain" where
  "push a x s = s\<lparr>heap := (heap s)(a := heap s a @ [x])\<rparr>"

text \<open>
  \<^verbatim>\<open>createGenesisBlock() { return new Block(0, "2023-01-01", "Genesis Block (Election Start)", "0"); }\<close>
\<close>

definition createGenesisBlock :: "lib \<Rightarrow> (addr \<Rightarrow> transaction list) \<Rightarrow> block" where
  "createGenesisBlock L h =
     Block L h 0 ''2023-01-01'' (DataString ''Genesis Block (Election Start)'') ''0'' 0 None"

text \<open>The heap before any array is filled.\<close>

definition emptyHeap :: "addr \<Rightarrow> transaction list" where
  "emptyHeap a = []"

text \<open>
  The state the constructor builds, with the genesis block in the chain: what
  \<^verbatim>\<open>loadChainAndElectionStateFromDatabase\<close> leaves on an empty store, and when the
  store fails. The constructor's \<^verbatim>\<open>this.pendingTransactions = []\<close> is the array at
  address \<open>0\<close>.
\<close>

definition initial :: "lib \<Rightarrow> blockchain" where
  "initial L =
     \<lparr>heap = emptyHeap, nextAddr = 1, chain = [createGenesisBlock L emptyHeap],
      difficulty = 3, pendingTransactions = 0, miningReward = 1,
      votedUsers = {}, registeredVoters = {},
      candidates = [\<lparr>id_c = ''candidateA'', name_c = ''Alice Smith''\<rparr>,
                    \<lparr>id_c = ''candidateB'', name_c = ''Bob Johnson''\<rparr>,
                    \<lparr>id_c = ''candidateC'', name_c = ''Charlie Brown''\<rparr>],
      isElectionOpen = False, isLoaded = True\<rparr>"

text \<open>
  \<^verbatim>\<open>getLatestBlock() { return this.chain[this.chain.length - 1]; }\<close>, which is
  \<^verbatim>\<open>undefined\<close> (here \<open>None\<close>) on the empty chain.
\<close>

definition getLatestBlock :: "blockchain \<Rightarrow> block option" where
  "getLatestBlock s = (if chain s = [] then None else Some (chain s ! (length (chain s) - 1)))"

text \<open>The content of the pending pool.\<close>

definition pool :: "blockchain \<Rightarrow> transaction list" where
  "pool s = heap s (pendingTransactions s)"

text \<open>
  \<^verbatim>\<open>createVote({voterId, candidateId})\<close>. The result is what the call returns or throws,
  with the state it leaves.
\<close>

definition createVote ::
  "string \<Rightarrow> string \<Rightarrow> string \<Rightarrow> blockchain \<Rightarrow> (error + bool) \<times> blockchain" where
  "createVote now voterId candidateId s =
     (if \<not> isElectionOpen s then (Inl ElectionClosed, s)
      else if voterId = [] \<or> candidateId = [] then (Inl InvalidInput, s)
      else if \<not> list_ex (\<lambda>c. id_c c = candidateId) (candidates s)
        then (Inl UnknownCandidate, s)
      else if voterId \<notin> registeredVoters s then (Inl VoterNotRegistered, s)
      else if voterId \<in> votedUsers s then (Inl DuplicateVote, s)
      else (Inr True, push (pendingTransactions s) (Vote voterId candidateId now) s))"

text \<open>
  \<^verbatim>\<open>registerVoter(voterId)\<close>: \<open>Inr False\<close> is the answer "already registered". A failure
  of \<^verbatim>\<open>saveElectionStateToDatabase\<close> is caught and logged there, and changes nothing here.
\<close>

definition registerVoter :: "string \<Rightarrow> blockchain \<Rightarrow> (error + bool) \<times> blockchain" where
  "registerVoter voterId s =
     (if voterId = [] then (Inl InvalidInput, s)
      else if voterId \<in> registeredVoters s then (Inr False, s)
      else (Inr True, s\<lparr>registeredVoters := insert voterId (registeredVoters s)\<rparr>))"

text \<open>\<^verbatim>\<open>setElectionStatus(status)\<close>; \<open>None\<close> stands for an argument that is not a boolean.\<close>

definition setElectionStatus :: "bool option \<Rightarrow> blockchain \<Rightarrow> (error + unit) \<times> blockchain" where
  "setElectionStatus status s =
     (case status of
        None \<Rightarrow> (Inl InvalidInput, s)
      | Some b \<Rightarrow> (Inr (), s\<lparr>isElectionOpen := b\<rparr>))"

text \<open>
  The loop \<^verbatim>\<open>newBlock.data.forEach(trans => { if (trans.type === 'vote' && trans.voterId)
     this.votedUsers.add(trans.voterId); })\<close>.
\<close>

definition addVoted :: "string set \<Rightarrow> transaction \<Rightarrow> string set" where
  "addVoted vs tr =
     (case tr of
        Vote v c t \<Rightarrow> if v \<noteq> [] then insert v vs else vs
      | MiningReward a n t \<Rightarrow> vs)"

text \<open>
  \<^verbatim>\<open>minePendingTransactions(minerAddress = null)\<close>. The clock is read twice (\<open>now1\<close> for
  the block, \<open>now2\<close> for the reward); \<open>saveOk\<close> tells whether the \<^verbatim>\<open>setDoc\<close> of the new
  block succeeds. \<^verbatim>\<open>JSON.parse(JSON.stringify(this.pendingTransactions))\<close> builds a new
  array with equal elements (the fields of a transaction are strings, \<^verbatim>\<open>null\<close> and a
  number). The arguments of \<^verbatim>\<open>new Block(...)\<close> are evaluated from left to right, so the
  copy is made before \<^verbatim>\<open>this.getLatestBlock().hash\<close> can throw. The outer \<open>None\<close> is a
  run whose mining loop never returns.
\<close>

datatype mine_result = NothingToMine | Mined block

definition minePendingTransactions ::
  "lib \<Rightarrow> string \<Rightarrow> string \<Rightarrow> string option \<Rightarrow> bool \<Rightarrow> blockchain
     \<Rightarrow> ((error + mine_result) \<times> blockchain) option" where
  "minePendingTransactions L now1 now2 minerAddress saveOk s =
     (if pool s = [] then Some (Inr NothingToMine, s)
      else
        let (a, s1) = newArray (pool s) s in
        case getLatestBlock s1 of
          None \<Rightarrow> Some (Inl TypeError, s1)
        | Some latest \<Rightarrow>
            (case mineBlock L (heap s1) (difficulty s1)
                    (Block L (heap s1) (length (chain s1)) now1 (DataArray a) (hash latest) 0 None) of
               None \<Rightarrow> None
             | Some newBlock \<Rightarrow>
                 let s2 = s1\<lparr>chain := chain s1 @ [newBlock]\<rparr> in
                 if \<not> saveOk then Some (Inl FailedToSaveBlock, s2)
                 else
                   let (p, s3) = newArray [] s2;
                       s4 = s3\<lparr>pendingTransactions := p\<rparr>;
                       s5 = (case minerAddress of
                               None \<Rightarrow> s4
                             | Some m \<Rightarrow>
                                 if m = [] then s4
                                 else push (pendingTransactions s4)
                                        (MiningReward m (miningReward s4) now2) s4);
                       s6 = s5\<lparr>votedUsers := foldl addVoted (votedUsers s5) (heap s5 a)\<rparr>
                   in Some (Inr (Mined newBlock), s6)))"

text \<open>
  \<^verbatim>\<open>getElectionResults()\<close>. The result object maps a candidate id to its name and its
  count. A key of \<^verbatim>\<open>Object.prototype\<close> (such as \<^verbatim>\<open>'constructor'\<close>) also passes the
  test \<^verbatim>\<open>results[transaction.candidateId]\<close>, and the increment then lands on that
  inherited object: no entry of the result itself changes, as here.
\<close>

type_synonym results = "string \<Rightarrow> (string \<times> nat) option"

definition initResult :: "results \<Rightarrow> candidate \<Rightarrow> results" where
  "initResult res c = res(id_c c \<mapsto> (name_c c, 0))"

definition countTransaction :: "results \<Rightarrow> transaction \<Rightarrow> results" where
  "countTransaction res tr =
     (case tr of
        Vote v c t \<Rightarrow> (case res c of
                         None \<Rightarrow> res
                       | Some (n, k) \<Rightarrow> res(c \<mapsto> (n, k + 1)))
      | MiningReward a n t \<Rightarrow> res)"

definition countBlock :: "(addr \<Rightarrow> transaction list) \<Rightarrow> results \<Rightarrow> block \<Rightarrow> results" where
  "countBlock h res b =
     (case data b of
        DataString x \<Rightarrow> res
      | DataArray a \<Rightarrow> foldl countTransaction res (h a))"

definition getElectionResults :: "blockchain \<Rightarrow> results \<times> blockchain" where
  "getElectionResults s =
     (foldl (countBlock (heap s)) (foldl initResult Map.empty (candidates s)) (chain s), s)"

text \<open>
  \<^verbatim>\<open>isChainValid()\<close>: the loop \<^verbatim>\<open>for (let i = 1; i < this.chain.length; i++)\<close> and the
  method around it.
\<close>

function isChainValid_from :: "lib \<Rightarrow> (addr \<Rightarrow> transaction list) \<Rightarrow> block list \<Rightarrow> nat \<Rightarrow> bool" where
  "isChainValid_from L h c i =
     (if i < length c then
        (if hash (c ! i) \<noteq> calculateHash L h (c ! i) then False
         else if previousHash (c ! i) \<noteq> hash (c ! (i - 1)) then False
         else isChainValid_from L h c (i + 1))
      else True)"
  by pat_completeness auto
termination
  by (relation "measure (\<lambda>(L, h, c, i). length c - i)") auto

definition isChainValid :: "lib \<Rightarrow> blockchain \<Rightarrow> bool \<times> blockchain" where
  "isChainValid L s =
     (if length (chain s) = 0 then (False, s)
      else (isChainValid_from L (heap s) (chain s) 1, s))"

subsection \<open>Notions the properties are stated with\<close>

text \<open>The transactions stored in a block: none in a block whose data is a string.\<close>

definition block_txs :: "(addr \<Rightarrow> transaction list) \<Rightarrow> block \<Rightarrow> transaction list" where
  "block_txs h b = (case data b of DataString x \<Rightarrow> [] | DataArray a \<Rightarrow> h a)"

text \<open>What the pool holds after a successful sealing: the reward, if a miner was named.\<close>

definition rewardFor :: "string option \<Rightarrow> int \<Rightarrow> string \<Rightarrow> transaction list" where
  "rewardFor minerAddress amount now =
     (case minerAddress of
        None \<Rightarrow> []
      | Some m \<Rightarrow> if m = [] then [] else [MiningReward m amount now])"

text \<open>The invariant of the chain: indices, stored hashes and links.\<close>

definition chain_linked :: "lib \<Rightarrow> blockchain \<Rightarrow> bool" where
  "chain_linked L s \<longleftrightarrow>
     (\<forall>i < length (chain s).
        index (chain s ! i) = i
      \<and> hash (chain s ! i) = calculateHash L (heap s) (chain s ! i)
      \<and> (0 < i \<longrightarrow> previousHash (chain s ! i) = hash (chain s ! (i - 1))))"

text \<open>
  The arrays of the blocks and the array of the pool are allocated, and no block shares
  its array with the pool.
\<close>

definition heap_wf :: "blockchain \<Rightarrow> bool" where
  "heap_wf s \<longleftrightarrow>
     pendingTransactions s < nextAddr s
   \<and> (\<forall>b \<in> set (chain s). \<forall>a. data b = DataArray a \<longrightarrow> a < nextAddr s \<and> a \<noteq> pendingTransactions s)"

text \<open>
  A state as \<^verbatim>\<open>loadChainAndElectionStateFromDatabase\<close> leaves it when it sets
  \<^verbatim>\<open>isLoaded\<close>: the chain holds the stored blocks or the genesis block, each with an
  array of its own, and the pool is the empty array of the constructor.
\<close>

definition loaded :: "blockchain \<Rightarrow> bool" where
  "loaded s \<longleftrightarrow> chain s \<noteq> [] \<and> pool s = [] \<and> heap_wf s"

text \<open>
  One call of a method that changes the state, run to its end (a mining run whose loop
  never returns leads nowhere). Calls are taken one after the other: none begins while
  another is suspended at an \<^verbatim>\<open>await\<close>. \<open>reachable_from L s0 s\<close>: some sequence of
  calls leads from \<open>s0\<close> to \<open>s\<close>.
\<close>

inductive step :: "lib \<Rightarrow> blockchain \<Rightarrow> blockchain \<Rightarrow> bool" for L where
  vote: "createVote now voterId candidateId s = (r, s') \<Longrightarrow> step L s s'"
| mine: "minePendingTransactions L now1 now2 minerAddress saveOk s = Some (q, s') \<Longrightarrow> step L s s'"
| register: "registerVoter voterId s = (r, s') \<Longrightarrow> step L s s'"
| status: "setElectionStatus status s = (u, s') \<Longrightarrow> step L s s'"

definition reachable_from :: "lib \<Rightarrow> blockchain \<Rightarrow> blockchain \<Rightarrow> bool" where
  "reachable_from L s0 s \<longleftrightarrow> rtranclp (step L) s0 s"

text \<open>
  The votes of a list of transactions were admitted by \<open>createVote\<close>: the voter is not
  empty and the candidate is on the roster.
\<close>

definition votes_ok :: "candidate list \<Rightarrow> transaction list \<Rightarrow> bool" where
  "votes_ok cs txs \<longleftrightarrow> (\<forall>v c t. Vote v c t \<in> set txs \<longrightarrow> v \<noteq> [] \<and> c \<in> id_c ` set cs)"

text \<open>
  What every state the ledger can be in satisfies (\<open>safe\<close>), and what it satisfies in
  addition when the chain began with the genesis block alone (\<open>sound\<close>).
\<close>

definition safe :: "blockchain \<Rightarrow> bool" where
  "safe s \<longleftrightarrow> heap_wf s \<and> chain s \<noteq> [] \<and> votes_ok (candidates s) (pool s)"

definition sound :: "lib \<Rightarrow> blockchain \<Rightarrow> bool" where
  "sound L s \<longleftrightarrow> chain_linked L s \<and> (\<forall>b \<in> set (chain s). votes_ok (candidates s) (block_txs (heap s) b))"

text \<open>One more turn of the mining loop.\<close>

definition nextNonce :: "lib \<Rightarrow> (addr \<Rightarrow> transaction list) \<Rightarrow> block \<Rightarrow> block" where
  "nextNonce L h b = b\<lparr>nonce := nonce b + 1, hash := calculateHash L h (b\<lparr>nonce := nonce b + 1\<rparr>)\<rparr>"

text \<open>
  What a mining run works on: the heap with the copy of the pool in the new array, and
  the block the constructor builds there, before \<open>mineBlock\<close> is called on it.
\<close>

definition copiedHeap :: "blockchain \<Rightarrow> addr \<Rightarrow> transaction list" where
  "copiedHeap s = (heap s)(nextAddr s := pool s)"

definition blockToSeal :: "lib \<Rightarrow> string \<Rightarrow> blockchain \<Rightarrow> block" where
  "blockToSeal L now1 s =
     Block L (copiedHeap s) (length (chain s)) now1 (DataArray (nextAddr s))
       (hash (last (chain s))) 0 None"

text \<open>
  Reading the result of \<open>getElectionResults\<close>: the count of a candidate, the sum of the
  counts over the entries of the result, and the transactions of the whole chain.
\<close>

definition votesFor :: "results \<Rightarrow> string \<Rightarrow> nat" where
  "votesFor res c = (case res c of None \<Rightarrow> 0 | Some (n, k) \<Rightarrow> k)"

definition totalVotes :: "results \<Rightarrow> nat" where
  "totalVotes res = (\<Sum>c \<in> dom res. votesFor res c)"

definition isVote :: "transaction \<Rightarrow> bool" where
  "isVote tr = (case tr of Vote v c t \<Rightarrow> True | MiningReward a n t \<Rightarrow> False)"

definition isVoteFor :: "string \<Rightarrow> transaction \<Rightarrow> bool" where
  "isVoteFor c tr = (case tr of Vote v c' t \<Rightarrow> c' = c | MiningReward a n t \<Rightarrow> False)"

definition chain_txs :: "blockchain \<Rightarrow> transaction list" where
  "chain_txs s = concat (map (block_txs (heap s)) (chain s))"

subsection \<open>A small run\<close>

text \<open>
  A digest and a serialiser small enough to run by hand, and a run of the ledger with
  them: the election is opened, the voter \<open>v1\<close> is registered, votes for
  \<open>candidateA\<close>, and the vote is sealed. The digest of a text ending in the digit \<open>0\<close>
  has no leading zero, so that sealing a new block takes one turn of the loop.
\<close>

declare mineBlock.simps [code]

definition toySHA :: "string \<Rightarrow> string" where
  "toySHA x = (if last x = CHR ''0'' then ''f'' else ''000'') @ dec (length x)"

definition exampleLib :: lib where
  "exampleLib =
     \<lparr>SHA256 = toySHA,
      JSON_stringify = (\<lambda>v. case v of ValString x \<Rightarrow> x | ValArray ts \<Rightarrow> dec (length ts))\<rparr>"

definition ex1 :: blockchain where
  "ex1 = snd (setElectionStatus (Some True) (initial exampleLib))"

definition ex2 :: blockchain where
  "ex2 = snd (registerVoter ''v1'' ex1)"

definition ex3 :: blockchain where
  "ex3 = snd (createVote ''1700000000001'' ''v1'' ''candidateA'' ex2)"

definition ex4 :: blockchain where
  "ex4 =
     (case minePendingTransactions exampleLib ''1700000000002'' ''1700000000003''
             (Some ''miner'') True ex3 of
        None \<Rightarrow> ex3
      | Some (r, s') \<Rightarrow> s')"

text \<open>The two blocks of the chain after the run, and a genesis block with altered data.\<close>

definition exGenesis :: block where
  "exGenesis = createGenesisBlock exampleLib emptyHeap"

definition exBlock1 :: block where
  "exBlock1 = \<lparr>index = 1, timestamp = ''1700000000002'', data = DataArray 1,
                previousHash = ''f43'', nonce = 1, hash = ''00019''\<rparr>"

definition tamperedGenesis :: block where
  "tamperedGenesis = exGenesis\<lparr>data := DataString ''Genesis Block (tampered)''\<rparr>"

text \<open>A block built with a given hash that does not match its fields.\<close>

definition badBlock :: block where
  "badBlock =
     Block exampleLib emptyHeap 1 ''1700000000002'' (DataString ''x'') ''f43'' 0 (Some ''000abc'')"

text \<open>The same sealing when the store refuses the block, and the sealing that follows it.\<close>

definition exFailed :: blockchain where
  "exFailed =
     (case minePendingTransactions exampleLib ''1700000000002'' ''1700000000003''
             (Some ''miner'') False ex3 of
        None \<Rightarrow> ex3
      | Some (q, s') \<Rightarrow> s')"

definition exRetry :: blockchain where
  "exRetry =
     (case minePendingTransactions exampleLib ''1700000000004'' ''1700000000005''
             (Some ''miner'') True exFailed of
        None \<Rightarrow> exFailed
      | Some (q, s') \<Rightarrow> s')"

definition exBlock2 :: block where
  "exBlock2 = \<lparr>index = 2, timestamp = ''1700000000004'', data = DataArray 2,
                previousHash = ''00019'', nonce = 1, hash = ''00021''\<rparr>"

text \<open>The sealing of the run with the empty string as miner address.\<close>

definition exNoReward :: blockchain where
  "exNoReward =
     (case minePendingTransactions exampleLib ''1700000000002'' ''1700000000003''
             (Some []) True ex3 of
        None \<Rightarrow> ex3
      | Some (q, s') \<Rightarrow> s')"

text \<open>
  A chain as it can be loaded from the store, with a sealed vote for an id that is not
  on the roster.
\<close>

definition exUnknown :: blockchain where
  "exUnknown =
     (initial exampleLib)
       \<lparr>heap := emptyHeap(1 := [Vote ''v1'' ''candidateZ'' ''1700000000001'']),
        nextAddr := 2,
        chain := [exGenesis, exBlock1]\<rparr>"

text \<open>A new block before and after sealing.\<close>

definition exFresh :: block where
  "exFresh = Block exampleLib emptyHeap 1 ''1700000000002'' (DataString ''x'') ''f43'' 0 None"

definition exSealed :: block where
  "exSealed = \<lparr>index = 1, timestamp = ''1700000000002'', data = DataString ''x'',
                previousHash = ''f43'', nonce = 1, hash = ''00019''\<rparr>"

declare dec.simps [simp del]
declare isChainValid_from.simps [simp del]

section \<open>Admission: the order of the checks\<close>

text \<open>
  C1. \<open>createVote\<close> applies its five checks in the order: election open, both fields
  non-empty, candidate known, voter registered, voter has not voted; the first check
  that fails decides the error, and the call succeeds when none fails. A closed election
  gives \<open>ElectionClosed\<close> whatever the other arguments and the rest of the state are.
\<close>

theorem createVote_check_order:
  "fst (createVote now voterId candidateId s) =
     (if \<not> isElectionOpen s then Inl ElectionClosed
      else if voterId = [] \<or> candidateId = [] then Inl InvalidInput
      else if candidateId \<notin> id_c ` set (candidates s) then Inl UnknownCandidate
      else if voterId \<notin> registeredVoters s then Inl VoterNotRegistered
      else if voterId \<in> votedUsers s then Inl DuplicateVote
      else Inr True)
   \<and> (\<not> isElectionOpen s \<longrightarrow> fst (createVote now voterId candidateId s) = Inl ElectionClosed)"
  by (auto simp: createVote_def list_ex_iff)

theorem createVote_check_order_witness:
  "\<not> isElectionOpen (initial exampleLib)
   \<and> fst (createVote ''1700000000001'' ''v1'' ''candidateA'' (initial exampleLib))
       = Inl ElectionClosed
   \<and> fst (createVote ''1700000000001'' ''v1'' ''candidateA'' ex2) = Inr True"
  using createVote_check_order [of "''1700000000001''" "''v1''" "''candidateA''" "initial exampleLib"]
    createVote_check_order [of "''1700000000001''" "''v1''" "''candidateA''" ex2]
  by (simp add: initial_def ex2_def ex1_def registerVoter_def setElectionStatus_def)

section \<open>Registration\<close>

text \<open>
  C8. \<open>registerVoter\<close> fails with \<open>InvalidInput\<close> on the empty id and changes nothing;
  on an id that is registered it answers "already registered" (\<open>Inr False\<close>, not an
  error) and changes nothing; on any other id it adds the id to \<open>registeredVoters\<close>,
  changes nothing else, and reports success.
\<close>

theorem registerVoter_outcomes:
  "(voterId = [] \<longrightarrow> registerVoter voterId s = (Inl InvalidInput, s))
   \<and> (voterId \<noteq> [] \<and> voterId \<in> registeredVoters s \<longrightarrow> registerVoter voterId s = (Inr False, s))
   \<and> (voterId \<noteq> [] \<and> voterId \<notin> registeredVoters s \<longrightarrow>
        registerVoter voterId s
          = (Inr True, s\<lparr>registeredVoters := insert voterId (registeredVoters s)\<rparr>))"
  by (simp add: registerVoter_def)

theorem registerVoter_outcomes_witness:
  "registerVoter [] ex1 = (Inl InvalidInput, ex1)
   \<and> ''v1'' \<notin> registeredVoters ex1
   \<and> registerVoter ''v1'' ex1 = (Inr True, ex1\<lparr>registeredVoters := insert ''v1'' (registeredVoters ex1)\<rparr>)
   \<and> ''v1'' \<in> registeredVoters ex2
   \<and> registerVoter ''v1'' ex2 = (Inr False, ex2)"
  using registerVoter_outcomes [of "[]" ex1] registerVoter_outcomes [of "''v1''" ex1]
    registerVoter_outcomes [of "''v1''" ex2]
  by (simp add: ex2_def)
     (simp add: ex1_def initial_def setElectionStatus_def registerVoter_def)

section \<open>Integrity verification\<close>

lemma isChainValid_from_iff:
  "isChainValid_from L h c i \<longleftrightarrow>
     (\<forall>j. i \<le> j \<and> j < length c \<longrightarrow>
        hash (c ! j) = calculateHash L h (c ! j) \<and> previousHash (c ! j) = hash (c ! (j - 1)))"
proof (induction L h c i rule: isChainValid_from.induct)
  case (1 L h c i)
  show ?case
  proof (cases "i < length c")
    case False
    then show ?thesis by (subst isChainValid_from.simps) auto
  next
    case True
    note lt = this
    show ?thesis
    proof (cases "hash (c ! i) = calculateHash L h (c ! i) \<and> previousHash (c ! i) = hash (c ! (i - 1))")
      case False
      with lt show ?thesis
        by (subst isChainValid_from.simps) auto
    next
      case ok: True
      have "isChainValid_from L h c i = isChainValid_from L h c (i + 1)"
        using lt ok by (subst isChainValid_from.simps) simp
      also have "\<dots> \<longleftrightarrow> (\<forall>j. i + 1 \<le> j \<and> j < length c \<longrightarrow>
        hash (c ! j) = calculateHash L h (c ! j) \<and> previousHash (c ! j) = hash (c ! (j - 1)))"
        using 1 lt ok by simp
      also have "\<dots> \<longleftrightarrow> (\<forall>j. i \<le> j \<and> j < length c \<longrightarrow>
        hash (c ! j) = calculateHash L h (c ! j) \<and> previousHash (c ! j) = hash (c ! (j - 1)))"
        using ok by (metis Suc_eq_plus1 Suc_leI le_neq_implies_less nat_le_linear not_less_eq_eq)
      finally show ?thesis .
    qed
  qed
qed

lemma ex4_chain: "chain ex4 = [exGenesis, exBlock1]"
  by code_simp

lemma ex4_valid_from: "isChainValid_from exampleLib (heap ex4) (chain ex4) 1"
  by code_simp

text \<open>
  C5. \<open>isChainValid\<close> answers false on the empty chain and true on a chain of one block
  (so on the chain that holds only the genesis block); on a chain that is not empty it
  answers true exactly when every block at an index from 1 on stores the hash computed
  from its fields and stores, as previous hash, the hash of the block before it. It
  returns the state it was given.
\<close>

theorem isChainValid_iff:
  "(chain s = [] \<longrightarrow> fst (isChainValid L s) = False)
   \<and> (length (chain s) = 1 \<longrightarrow> fst (isChainValid L s) = True)
   \<and> fst (isChainValid L (initial L)) = True
   \<and> (chain s \<noteq> [] \<longrightarrow>
        fst (isChainValid L s) =
          (\<forall>i. 1 \<le> i \<and> i < length (chain s) \<longrightarrow>
             hash (chain s ! i) = calculateHash L (heap s) (chain s ! i)
           \<and> previousHash (chain s ! i) = hash (chain s ! (i - 1))))
   \<and> snd (isChainValid L s) = s"
  by (auto simp: isChainValid_def isChainValid_from_iff initial_def)

theorem isChainValid_iff_witness:
  "chain ex4 \<noteq> [] \<and> length (chain ex4) = 2 \<and> fst (isChainValid exampleLib ex4)
   \<and> hash (chain ex4 ! 1) = calculateHash exampleLib (heap ex4) (chain ex4 ! 1)
   \<and> previousHash (chain ex4 ! 1) = hash (chain ex4 ! 0)
   \<and> \<not> fst (isChainValid exampleLib (ex4\<lparr>chain := []\<rparr>))"
proof -
  have v: "fst (isChainValid exampleLib ex4)"
    using ex4_valid_from by (simp add: isChainValid_def ex4_chain)
  have ne: "chain ex4 \<noteq> []" and len: "length (chain ex4) = 2"
    by (simp_all add: ex4_chain)
  from isChainValid_iff [of ex4 exampleLib] ne v
  have "\<forall>i. 1 \<le> i \<and> i < length (chain ex4) \<longrightarrow>
             hash (chain ex4 ! i) = calculateHash exampleLib (heap ex4) (chain ex4 ! i)
           \<and> previousHash (chain ex4 ! i) = hash (chain ex4 ! (i - 1))"
    by simp
  from this [rule_format, of 1] len
  have "hash (chain ex4 ! 1) = calculateHash exampleLib (heap ex4) (chain ex4 ! 1)
      \<and> previousHash (chain ex4 ! 1) = hash (chain ex4 ! 0)"
    by simp
  moreover have "\<not> fst (isChainValid exampleLib (ex4\<lparr>chain := []\<rparr>))"
    using isChainValid_iff [of "ex4\<lparr>chain := []\<rparr>" exampleLib] by simp
  ultimately show ?thesis using v ne len by simp
qed

text \<open>
  C9. \<open>isChainValid\<close> never recomputes the hash of the block at index 0. On a chain whose
  blocks from index 1 on pass both checks it answers true whatever the fields of the
  first block are; and it goes on answering true when the first block is replaced by any
  block that stores the same hash, so that altering the data of the genesis block while
  keeping its stored hash is not detected.
\<close>

theorem isChainValid_skips_genesis:
  assumes "chain s = g # rest"
    and "\<forall>i. 1 \<le> i \<and> i < length (chain s) \<longrightarrow>
             hash (chain s ! i) = calculateHash L (heap s) (chain s ! i)
           \<and> previousHash (chain s ! i) = hash (chain s ! (i - 1))"
  shows "fst (isChainValid L s)
       \<and> (\<forall>g'. hash g' = hash g \<longrightarrow> fst (isChainValid L (s\<lparr>chain := g' # rest\<rparr>)))"
proof -
  have a: "fst (isChainValid L s)"
    using assms by (simp add: isChainValid_def isChainValid_from_iff)
  have b: "fst (isChainValid L (s\<lparr>chain := g' # rest\<rparr>))" if h: "hash g' = hash g" for g'
  proof -
    have "hash ((g' # rest) ! j) = calculateHash L (heap s) ((g' # rest) ! j)
           \<and> previousHash ((g' # rest) ! j) = hash ((g' # rest) ! (j - 1))"
      if j: "1 \<le> j" "j < length (g' # rest)" for j
    proof -
      from j obtain k where k: "j = Suc k" by (cases j) auto
      from assms(2)[rule_format, of j] j assms(1)
      have "hash ((g # rest) ! j) = calculateHash L (heap s) ((g # rest) ! j)
           \<and> previousHash ((g # rest) ! j) = hash ((g # rest) ! (j - 1))" by simp
      then show ?thesis using k h by (cases k) auto
    qed
    then show ?thesis by (simp add: isChainValid_def isChainValid_from_iff)
  qed
  from a b show ?thesis by blast
qed

theorem isChainValid_skips_genesis_witness:
  "chain ex4 = exGenesis # [exBlock1]
   \<and> hash tamperedGenesis = hash exGenesis
   \<and> hash tamperedGenesis \<noteq> calculateHash exampleLib (heap ex4) tamperedGenesis
   \<and> fst (isChainValid exampleLib (ex4\<lparr>chain := tamperedGenesis # [exBlock1]\<rparr>))"
proof -
  have c: "chain ex4 = exGenesis # [exBlock1]" by (simp add: ex4_chain)
  have v: "\<forall>i. 1 \<le> i \<and> i < length (chain ex4) \<longrightarrow>
             hash (chain ex4 ! i) = calculateHash exampleLib (heap ex4) (chain ex4 ! i)
           \<and> previousHash (chain ex4 ! i) = hash (chain ex4 ! (i - 1))"
    using ex4_valid_from by (simp add: isChainValid_from_iff)
  have h: "hash tamperedGenesis = hash exGenesis" by (simp add: tamperedGenesis_def)
  have d: "hash tamperedGenesis \<noteq> calculateHash exampleLib (heap ex4) tamperedGenesis"
    by code_simp
  from isChainValid_skips_genesis [OF c v] h d c show ?thesis by blast
qed

section \<open>Sealing a block\<close>

lemma calculateHash_hash_irrelevant [simp]:
  "calculateHash L h (b\<lparr>hash := x\<rparr>) = calculateHash L h b"
  by (simp add: calculateHash_def)

lemma calculateHash_data_of:
  "data_of h' (data b) = data_of h (data b) \<Longrightarrow> calculateHash L h' b = calculateHash L h b"
  by (simp add: calculateHash_def)

lemma data_of_upd_other:
  "(\<And>a. data b = DataArray a \<Longrightarrow> a \<noteq> x) \<Longrightarrow> data_of (h(x := v)) (data b) = data_of h (data b)"
  by (cases "data b") (auto simp: data_of_def)

lemma block_txs_data_of:
  "data_of h' (data b) = data_of h (data b) \<Longrightarrow> block_txs h' b = block_txs h b"
  by (cases "data b") (auto simp: data_of_def block_txs_def)

lemma Block_fields [simp]:
  "index (Block L h i t d p n ho) = i"
  "timestamp (Block L h i t d p n ho) = t"
  "data (Block L h i t d p n ho) = d"
  "previousHash (Block L h i t d p n ho) = p"
  "nonce (Block L h i t d p n ho) = n"
  by (simp_all add: Block_def Let_def)

lemma Block_fresh_hash:
  "hash (Block L h i t d p n None) = calculateHash L h (Block L h i t d p n None)"
  by (simp add: Block_def Let_def calculateHash_def)

text \<open>
  What a run of the loop that returns has done: the hash it leaves has the required
  zeros, only the nonce and the hash have changed, and the hash is the computed one as
  soon as the loop has run once or the block came in with its computed hash.
\<close>

lemma mineBlock_Some:
  assumes "mineBlock L h d b = Some b'"
  shows "take d (hash b') = replicate d (CHR ''0'')
   \<and> index b' = index b \<and> timestamp b' = timestamp b \<and> data b' = data b
   \<and> previousHash b' = previousHash b \<and> nonce b \<le> nonce b'
   \<and> (hash b = calculateHash L h b \<or> b' \<noteq> b \<longrightarrow> hash b' = calculateHash L h b')"
  using assms
proof (induction rule: mineBlock.raw_induct[rotated 1, consumes 1])
  case (1 mineBlock L h d b b')
  show ?case
  proof (cases "take d (hash b) = replicate d (CHR ''0'')")
    case True
    with 1(2) show ?thesis by simp
  next
    case False
    with 1(2) have "mineBlock L h d (b\<lparr>nonce := nonce b + 1,
                hash := calculateHash L h (b\<lparr>nonce := nonce b + 1\<rparr>)\<rparr>) = Some b'" by simp
    from 1(1)[OF this] show ?thesis by (simp (no_asm_use)) linarith
  qed
qed

text \<open>The loop returns as soon as some number of turns leads to a hash with the zeros.\<close>

lemma mineBlock_terminates:
  "take d (hash ((nextNonce L h ^^ k) b)) = replicate d (CHR ''0'') \<Longrightarrow> \<exists>b'. mineBlock L h d b = Some b'"
proof (induction k arbitrary: b)
  case 0
  then show ?case by (subst mineBlock.simps) simp
next
  case (Suc k)
  show ?case
  proof (cases "take d (hash b) = replicate d (CHR ''0'')")
    case True
    then show ?thesis by (subst mineBlock.simps) simp
  next
    case False
    from Suc.prems have "take d (hash ((nextNonce L h ^^ k) (nextNonce L h b))) = replicate d (CHR ''0'')"
      by (simp add: funpow_swap1)
    from Suc.IH[OF this] obtain b' where "mineBlock L h d (nextNonce L h b) = Some b'" by blast
    with False show ?thesis by (subst mineBlock.simps) (simp add: nextNonce_def)
  qed
qed

text \<open>A run of the loop that returns has made some number of turns, and conversely.\<close>

lemma mineBlock_Some_turns:
  assumes "mineBlock L h d b = Some b'"
  shows "\<exists>k. b' = (nextNonce L h ^^ k) b \<and> take d (hash b') = replicate d (CHR ''0'')"
  using assms
proof (induction rule: mineBlock.raw_induct[rotated 1, consumes 1])
  case (1 mineBlock L h d b b')
  show ?case
  proof (cases "take d (hash b) = replicate d (CHR ''0'')")
    case True
    with 1(2) have e: "b' = b" by simp
    with True have "b' = (nextNonce L h ^^ 0) b \<and> take d (hash b') = replicate d (CHR ''0'')"
      by simp
    then show ?thesis by (rule exI)
  next
    case False
    with 1(2) have "mineBlock L h d (nextNonce L h b) = Some b'" by (simp add: nextNonce_def)
    from 1(1)[OF this] obtain k where "b' = (nextNonce L h ^^ k) (nextNonce L h b)"
      and z: "take d (hash b') = replicate d (CHR ''0'')" by blast
    then have "b' = (nextNonce L h ^^ Suc k) b" by (simp add: funpow_swap1)
    with z show ?thesis by blast
  qed
qed

lemma mineBlock_returns_iff:
  "(\<exists>b'. mineBlock L h d b = Some b')
     \<longleftrightarrow> (\<exists>k. take d (hash ((nextNonce L h ^^ k) b)) = replicate d (CHR ''0''))"
  using mineBlock_terminates mineBlock_Some_turns by metis

text \<open>
  C3, as amended. When \<open>mineBlock\<close> returns, the hash of the block begins with
  \<open>difficulty\<close> zeros, for every block. The hash equals the hash computed from the
  fields and the final nonce when the block entered the loop with its computed hash (as
  every block does that the constructor built without a given hash, the only blocks the
  ledger seals), or when the loop has changed the block. A block that enters with a hash
  that was given to the constructor, has the zeros and is not the computed one leaves
  the loop untouched.
\<close>

theorem mineBlock_sealed:
  "mineBlock L h d b = Some b' \<Longrightarrow>
     take d (hash b') = replicate d (CHR ''0'')
   \<and> (hash b = calculateHash L h b \<or> b' \<noteq> b \<longrightarrow> hash b' = calculateHash L h b')"
  using mineBlock_Some by blast

theorem mineBlock_sealed_witness:
  "mineBlock exampleLib emptyHeap 3 exFresh = Some exSealed
   \<and> hash exFresh = calculateHash exampleLib emptyHeap exFresh
   \<and> take 3 (hash exSealed) = replicate 3 (CHR ''0'')
   \<and> hash exSealed = calculateHash exampleLib emptyHeap exSealed"
proof -
  have run: "mineBlock exampleLib emptyHeap 3 exFresh = Some exSealed"
    by code_simp
  have fresh: "hash exFresh = calculateHash exampleLib emptyHeap exFresh"
    by (simp add: exFresh_def Block_fresh_hash)
  from mineBlock_sealed [OF run] fresh run show ?thesis by blast
qed

theorem mineBlock_roundtrip_counterexample:
  "mineBlock exampleLib emptyHeap 3 badBlock = Some badBlock
   \<and> hash badBlock \<noteq> calculateHash exampleLib emptyHeap badBlock"
  by code_simp

section \<open>Mining the pending transactions\<close>

text \<open>The four ways a mining run can end.\<close>

lemma minePendingTransactions_cases:
  assumes "minePendingTransactions L now1 now2 m ok s = Some (q, s')"
  obtains
    (nothing) "pool s = []" "q = Inr NothingToMine" "s' = s"
  | (no_chain) "pool s \<noteq> []" "chain s = []" "q = Inl TypeError"
      "s' = s\<lparr>heap := (heap s)(nextAddr s := pool s), nextAddr := Suc (nextAddr s)\<rparr>"
  | (failed) b where "pool s \<noteq> []" "chain s \<noteq> []" "\<not> ok" "q = Inl FailedToSaveBlock"
      "mineBlock L ((heap s)(nextAddr s := pool s)) (difficulty s)
         (Block L ((heap s)(nextAddr s := pool s)) (length (chain s)) now1 (DataArray (nextAddr s))
            (hash (last (chain s))) 0 None) = Some b"
      "s' = s\<lparr>heap := (heap s)(nextAddr s := pool s), nextAddr := Suc (nextAddr s),
              chain := chain s @ [b]\<rparr>"
  | (mined) b where "pool s \<noteq> []" "chain s \<noteq> []" "ok" "q = Inr (Mined b)"
      "mineBlock L ((heap s)(nextAddr s := pool s)) (difficulty s)
         (Block L ((heap s)(nextAddr s := pool s)) (length (chain s)) now1 (DataArray (nextAddr s))
            (hash (last (chain s))) 0 None) = Some b"
      "s' = s\<lparr>heap := (heap s)(nextAddr s := pool s,
                                 Suc (nextAddr s) := rewardFor m (miningReward s) now2),
              nextAddr := Suc (Suc (nextAddr s)),
              chain := chain s @ [b],
              pendingTransactions := Suc (nextAddr s),
              votedUsers := foldl addVoted (votedUsers s) (pool s)\<rparr>"
proof (cases "pool s = []")
  case True
  with assms have "q = Inr NothingToMine" "s' = s"
    by (auto simp: minePendingTransactions_def)
  with True show ?thesis by (rule nothing[rotated 1])
next
  case ne: False
  show ?thesis
  proof (cases "chain s = []")
    case True
    with assms ne have "q = Inl TypeError"
      "s' = s\<lparr>heap := (heap s)(nextAddr s := pool s), nextAddr := Suc (nextAddr s)\<rparr>"
      by (auto simp: minePendingTransactions_def newArray_def getLatestBlock_def)
    with ne True show ?thesis by (rule no_chain)
  next
    case ch: False
    have last: "chain s ! (length (chain s) - Suc 0) = last (chain s)"
      using ch by (simp add: last_conv_nth)
    from assms ne ch obtain b where
      mb: "mineBlock L ((heap s)(nextAddr s := pool s)) (difficulty s)
         (Block L ((heap s)(nextAddr s := pool s)) (length (chain s)) now1 (DataArray (nextAddr s))
            (hash (last (chain s))) 0 None) = Some b"
      by (auto simp: minePendingTransactions_def newArray_def getLatestBlock_def last
               split: option.splits)
    show ?thesis
    proof (cases ok)
      case False
      with assms ne ch mb have "q = Inl FailedToSaveBlock"
        "s' = s\<lparr>heap := (heap s)(nextAddr s := pool s), nextAddr := Suc (nextAddr s),
              chain := chain s @ [b]\<rparr>"
        by (auto simp: minePendingTransactions_def newArray_def getLatestBlock_def last)
      with ne ch False mb show ?thesis using failed by blast
    next
      case True
      have "s' = s\<lparr>heap := (heap s)(nextAddr s := pool s,
                                 Suc (nextAddr s) := rewardFor m (miningReward s) now2),
              nextAddr := Suc (Suc (nextAddr s)),
              chain := chain s @ [b],
              pendingTransactions := Suc (nextAddr s),
              votedUsers := foldl addVoted (votedUsers s) (pool s)\<rparr>"
        using assms ne ch mb True
        by (auto simp: minePendingTransactions_def newArray_def getLatestBlock_def last
              push_def rewardFor_def Let_def split: option.splits)
      moreover have "q = Inr (Mined b)"
        using assms ne ch mb True
        by (auto simp: minePendingTransactions_def newArray_def getLatestBlock_def last
              Let_def split: option.splits)
      ultimately show ?thesis using mined ne ch mb True by blast
    qed
  qed
qed

text \<open>A mining run on a pool that is not empty returns exactly when its loop does.\<close>

lemma minePendingTransactions_returns_iff:
  assumes "pool s \<noteq> []" and "chain s \<noteq> []"
  shows "(\<exists>q s'. minePendingTransactions L now1 now2 m ok s = Some (q, s'))
     \<longleftrightarrow> (\<exists>b. mineBlock L (copiedHeap s) (difficulty s) (blockToSeal L now1 s) = Some b)"
proof
  assume "\<exists>q s'. minePendingTransactions L now1 now2 m ok s = Some (q, s')"
  then obtain q s' where run: "minePendingTransactions L now1 now2 m ok s = Some (q, s')" by blast
  from run show "\<exists>b. mineBlock L (copiedHeap s) (difficulty s) (blockToSeal L now1 s) = Some b"
  proof (cases rule: minePendingTransactions_cases)
    case nothing
    with assms show ?thesis by simp
  next
    case no_chain
    with assms show ?thesis by simp
  next
    case (failed b)
    then show ?thesis by (auto simp: copiedHeap_def blockToSeal_def)
  next
    case (mined b)
    then show ?thesis by (auto simp: copiedHeap_def blockToSeal_def)
  qed
next
  assume "\<exists>b. mineBlock L (copiedHeap s) (difficulty s) (blockToSeal L now1 s) = Some b"
  then obtain b where mb: "mineBlock L (copiedHeap s) (difficulty s) (blockToSeal L now1 s) = Some b"
    by blast
  have last: "chain s ! (length (chain s) - Suc 0) = last (chain s)"
    using assms(2) by (simp add: last_conv_nth)
  from mb assms show "\<exists>q s'. minePendingTransactions L now1 now2 m ok s = Some (q, s')"
    by (simp add: minePendingTransactions_def newArray_def getLatestBlock_def last
        copiedHeap_def blockToSeal_def Let_def split: prod.splits)
qed

text \<open>What one call can do to the state.\<close>

lemma step_cases:
  assumes "step L s s'"
  obtains
    (same) "s' = s"
  | (pushed) voterId candidateId now where
      "s' = s\<lparr>heap := (heap s)(pendingTransactions s := pool s @ [Vote voterId candidateId now])\<rparr>"
      "voterId \<noteq> []" "candidateId \<in> id_c ` set (candidates s)"
      "voterId \<in> registeredVoters s" "voterId \<notin> votedUsers s" "isElectionOpen s"
  | (no_chain) "pool s \<noteq> []" "chain s = []"
      "s' = s\<lparr>heap := (heap s)(nextAddr s := pool s), nextAddr := Suc (nextAddr s)\<rparr>"
  | (failed) b now1 where "pool s \<noteq> []" "chain s \<noteq> []"
      "mineBlock L ((heap s)(nextAddr s := pool s)) (difficulty s)
         (Block L ((heap s)(nextAddr s := pool s)) (length (chain s)) now1 (DataArray (nextAddr s))
            (hash (last (chain s))) 0 None) = Some b"
      "s' = s\<lparr>heap := (heap s)(nextAddr s := pool s), nextAddr := Suc (nextAddr s),
              chain := chain s @ [b]\<rparr>"
  | (mined) b now1 now2 m where "pool s \<noteq> []" "chain s \<noteq> []"
      "mineBlock L ((heap s)(nextAddr s := pool s)) (difficulty s)
         (Block L ((heap s)(nextAddr s := pool s)) (length (chain s)) now1 (DataArray (nextAddr s))
            (hash (last (chain s))) 0 None) = Some b"
      "s' = s\<lparr>heap := (heap s)(nextAddr s := pool s,
                                 Suc (nextAddr s) := rewardFor m (miningReward s) now2),
              nextAddr := Suc (Suc (nextAddr s)),
              chain := chain s @ [b],
              pendingTransactions := Suc (nextAddr s),
              votedUsers := foldl addVoted (votedUsers s) (pool s)\<rparr>"
  | (registered) voterId where "s' = s\<lparr>registeredVoters := insert voterId (registeredVoters s)\<rparr>"
  | (status) b where "s' = s\<lparr>isElectionOpen := b\<rparr>"
  using assms
proof (cases rule: step.cases)
  case (vote now voterId candidateId r)
  show ?thesis
  proof (cases r)
    case (Inl e)
    with vote have "s' = s" by (auto simp: createVote_def split: if_splits)
    then show ?thesis by (rule same)
  next
    case (Inr x)
    with vote show ?thesis
      by (intro pushed[of voterId candidateId now])
         (auto simp: createVote_def push_def pool_def list_ex_iff split: if_splits)
  qed
next
  case (mine now1 now2 minerAddress saveOk q)
  then show ?thesis
  proof (cases rule: minePendingTransactions_cases)
    case nothing
    then show ?thesis by (intro same)
  next
    case no_chain
    then show ?thesis using that(3) by blast
  next
    case (failed b)
    then show ?thesis using that(4) by blast
  next
    case (mined b)
    then show ?thesis using that(5) by blast
  qed
next
  case (register voterId r)
  then show ?thesis
    using same registered by (auto simp: registerVoter_def split: if_splits)
next
  case (status st u)
  then show ?thesis
    using same that(7) by (auto simp: setElectionStatus_def split: option.splits)
qed

subsection \<open>Invariants\<close>

lemma loaded_safe: "loaded s \<Longrightarrow> safe s"
  by (simp add: loaded_def safe_def votes_ok_def)

lemma rewardFor_no_vote: "Vote v c t \<notin> set (rewardFor m n now)"
  by (auto simp: rewardFor_def split: option.splits)

lemma step_safe:
  assumes "safe s" and "step L s s'"
  shows "safe s'"
  using assms(2)
proof (cases rule: step_cases)
  case same
  with assms show ?thesis by simp
next
  case (pushed voterId candidateId now)
  with assms(1) show ?thesis
    by (auto simp: safe_def heap_wf_def votes_ok_def pool_def)
next
  case no_chain
  with assms(1) show ?thesis by (simp add: safe_def)
next
  case (failed b now1)
  from mineBlock_Some[OF failed(3)] have d: "data b = DataArray (nextAddr s)" by simp
  from assms(1) have "pendingTransactions s < nextAddr s" by (simp add: safe_def heap_wf_def)
  with failed(4) d assms(1) show ?thesis
    by (auto simp: safe_def heap_wf_def votes_ok_def pool_def)
next
  case (mined b now1 now2 m)
  from mineBlock_Some[OF mined(3)] have d: "data b = DataArray (nextAddr s)" by simp
  from assms(1) have "pendingTransactions s < nextAddr s" by (simp add: safe_def heap_wf_def)
  with mined(4) d assms(1) show ?thesis
    by (auto simp: safe_def heap_wf_def votes_ok_def pool_def rewardFor_no_vote)
next
  case (registered voterId)
  with assms(1) show ?thesis by (simp add: safe_def heap_wf_def votes_ok_def pool_def)
next
  case (status b)
  with assms(1) show ?thesis by (simp add: safe_def heap_wf_def votes_ok_def pool_def)
qed

lemma step_keeps_blocks:
  assumes "safe s" and "step L s s'"
  shows "(\<exists>bs. chain s' = chain s @ bs)
       \<and> (\<forall>b \<in> set (chain s). data_of (heap s') (data b) = data_of (heap s) (data b))
       \<and> candidates s' = candidates s"
  using assms(2)
proof (cases rule: step_cases)
  case same
  then show ?thesis by simp
next
  case (pushed voterId candidateId now)
  with assms(1) show ?thesis
    by (auto simp: safe_def heap_wf_def intro!: data_of_upd_other)
next
  case no_chain
  with assms(1) show ?thesis by (simp add: safe_def)
next
  case (failed b now1)
  with assms(1) show ?thesis
    by (auto simp: safe_def heap_wf_def intro!: data_of_upd_other)
next
  case (mined b now1 now2 m)
  have "data_of ((heap s)(nextAddr s := pool s, Suc (nextAddr s) := rewardFor m (miningReward s) now2)) (data x)
        = data_of (heap s) (data x)" if "x \<in> set (chain s)" for x
  proof (cases "data x")
    case (DataString z)
    then show ?thesis by (simp add: data_of_def)
  next
    case (DataArray a)
    with that assms(1) have "a < nextAddr s" by (auto simp: safe_def heap_wf_def)
    with DataArray show ?thesis by (simp add: data_of_def)
  qed
  with mined(4) show ?thesis by simp
next
  case (registered voterId)
  then show ?thesis by simp
next
  case (status b)
  then show ?thesis by simp
qed

lemma reachable_keeps_blocks:
  assumes "safe s" and "reachable_from L s s'"
  shows "safe s' \<and> (\<exists>bs. chain s' = chain s @ bs)
       \<and> (\<forall>b \<in> set (chain s). data_of (heap s') (data b) = data_of (heap s) (data b))
       \<and> candidates s' = candidates s"
  using assms(2) unfolding reachable_from_def
proof (induction rule: rtranclp_induct)
  case base
  with assms(1) show ?case by simp
next
  case (step y z)
  then have sy: "safe y" by simp
  from step_keeps_blocks[OF sy step(2)] step_safe[OF sy step(2)] step(3)
  show ?case by (metis append.assoc Un_iff set_append)
qed

lemma step_new_block:
  assumes "step L s s'" and "chain s' = chain s @ bs" and "bs \<noteq> []"
  shows "\<exists>b now1. bs = [b] \<and>
      mineBlock L ((heap s)(nextAddr s := pool s)) (difficulty s)
         (Block L ((heap s)(nextAddr s := pool s)) (length (chain s)) now1 (DataArray (nextAddr s))
            (hash (last (chain s))) 0 None) = Some b \<and> heap s' (nextAddr s) = pool s"
  using assms(1)
proof (cases rule: step_cases)
  case same
  with assms(2,3) show ?thesis by simp
next
  case (pushed voterId candidateId now)
  with assms(2,3) show ?thesis by simp
next
  case no_chain
  with assms(2,3) show ?thesis by simp
next
  case (failed b now1)
  from failed(4) assms(2) have "bs = [b]" "heap s' (nextAddr s) = pool s" by simp_all
  with failed(3) show ?thesis by blast
next
  case (mined b now1 now2 m)
  from mined(4) assms(2) have "bs = [b]" "heap s' (nextAddr s) = pool s" by simp_all
  with mined(3) show ?thesis by blast
next
  case (registered voterId)
  with assms(2,3) show ?thesis by simp
next
  case (status b)
  with assms(2,3) show ?thesis by simp
qed

lemma step_sound:
  assumes "safe s" and "sound L s" and "step L s s'"
  shows "sound L s'"
proof -
  from step_keeps_blocks[OF assms(1,3)] obtain bs where
    ch: "chain s' = chain s @ bs"
    and old: "\<And>b. b \<in> set (chain s) \<Longrightarrow> data_of (heap s') (data b) = data_of (heap s) (data b)"
    and cs: "candidates s' = candidates s" by blast
  have ne: "chain s \<noteq> []" using assms(1) by (simp add: safe_def)
  have pv: "votes_ok (candidates s) (pool s)" using assms(1) by (simp add: safe_def)
  have lk: "chain_linked L s" using assms(2) by (simp add: sound_def)
  have oldlink: "index (chain s' ! i) = i \<and>
         hash (chain s' ! i) = calculateHash L (heap s') (chain s' ! i) \<and>
         (0 < i \<longrightarrow> previousHash (chain s' ! i) = hash (chain s' ! (i - 1)))"
    if i: "i < length (chain s)" for i
  proof -
    have m: "chain s ! i \<in> set (chain s)" using i by simp
    have e: "chain s' ! i = chain s ! i" "chain s' ! (i - 1) = chain s ! (i - 1)"
      using i ch by (simp_all add: nth_append)
    from lk i have "index (chain s ! i) = i \<and>
         hash (chain s ! i) = calculateHash L (heap s) (chain s ! i) \<and>
         (0 < i \<longrightarrow> previousHash (chain s ! i) = hash (chain s ! (i - 1)))"
      by (simp add: chain_linked_def)
    with e calculateHash_data_of[OF old[OF m], of L] show ?thesis by simp
  qed
  have oldvotes: "votes_ok (candidates s') (block_txs (heap s') x)" if x: "x \<in> set (chain s)" for x
  proof -
    from assms(2) x have "votes_ok (candidates s) (block_txs (heap s) x)" by (simp add: sound_def)
    with block_txs_data_of[OF old[OF x]] cs show ?thesis by simp
  qed
  show ?thesis
  proof (cases "bs = []")
    case True
    with ch oldlink oldvotes show ?thesis
      by (simp add: sound_def chain_linked_def)
  next
    case False
    from step_new_block[OF assms(3) ch False] obtain b now1 where bs: "bs = [b]"
      and mb: "mineBlock L ((heap s)(nextAddr s := pool s)) (difficulty s)
         (Block L ((heap s)(nextAddr s := pool s)) (length (chain s)) now1 (DataArray (nextAddr s))
            (hash (last (chain s))) 0 None) = Some b"
      and hp: "heap s' (nextAddr s) = pool s" by blast
    from mineBlock_Some[OF mb] Block_fresh_hash
    have b: "index b = length (chain s)" "data b = DataArray (nextAddr s)"
      "previousHash b = hash (last (chain s))"
      "hash b = calculateHash L ((heap s)(nextAddr s := pool s)) b" by simp_all
    have hb: "hash b = calculateHash L (heap s') b"
      using b(2,4) hp by (simp add: calculateHash_def data_of_def)
    have link: "chain_linked L s'"
      unfolding chain_linked_def
    proof (intro allI impI)
      fix i assume i: "i < length (chain s')"
      show "index (chain s' ! i) = i \<and>
         hash (chain s' ! i) = calculateHash L (heap s') (chain s' ! i) \<and>
         (0 < i \<longrightarrow> previousHash (chain s' ! i) = hash (chain s' ! (i - 1)))"
      proof (cases "i < length (chain s)")
        case True
        then show ?thesis by (rule oldlink)
      next
        case False
        with i ch bs have ie: "i = length (chain s)" by simp
        with ch bs b hb ne show ?thesis
          by (simp add: nth_append last_conv_nth)
      qed
    qed
    have "votes_ok (candidates s') (block_txs (heap s') x)" if "x \<in> set (chain s')" for x
    proof (cases "x \<in> set (chain s)")
      case True
      then show ?thesis by (rule oldvotes)
    next
      case False
      with that ch bs have "x = b" by simp
      with b(2) hp pv cs show ?thesis by (simp add: block_txs_def)
    qed
    with link show ?thesis by (simp add: sound_def)
  qed
qed

lemma initial_safe: "safe (initial L)"
  by (simp add: safe_def initial_def heap_wf_def votes_ok_def pool_def emptyHeap_def
      createGenesisBlock_def)

lemma initial_loaded: "loaded (initial L)"
  by (simp add: loaded_def initial_def heap_wf_def pool_def emptyHeap_def
      createGenesisBlock_def)

lemma initial_sound: "sound L (initial L)"
  by (simp add: sound_def initial_def chain_linked_def createGenesisBlock_def Block_fresh_hash
      block_txs_def votes_ok_def)

lemma reachable_sound:
  assumes "reachable_from L (initial L) s"
  shows "safe s \<and> sound L s"
  using assms unfolding reachable_from_def
proof (induction rule: rtranclp_induct)
  case base
  show ?case by (simp add: initial_safe initial_sound)
next
  case (step y z)
  then show ?case using step_safe step_sound by blast
qed

lemma addVoted_fold:
  "foldl addVoted vs txs = vs \<union> {v. v \<noteq> [] \<and> (\<exists>c t. Vote v c t \<in> set txs)}"
proof (induction txs arbitrary: vs)
  case Nil
  then show ?case by simp
next
  case (Cons x txs)
  show ?case
  proof (cases x)
    case (Vote v c t)
    with Cons.IH[of "addVoted vs x"] show ?thesis by (auto simp: addVoted_def)
  next
    case (MiningReward a n t)
    with Cons.IH[of "addVoted vs x"] show ?thesis by (auto simp: addVoted_def)
  qed
qed

subsection \<open>The small run, step by step\<close>

lemma ex_mine:
  "\<exists>q. minePendingTransactions exampleLib ''1700000000002'' ''1700000000003''
          (Some ''miner'') True ex3 = Some (q, ex4)"
proof -
  have "minePendingTransactions exampleLib ''1700000000002'' ''1700000000003''
          (Some ''miner'') True ex3 \<noteq> None"
    by code_simp
  then obtain q s' where r: "minePendingTransactions exampleLib ''1700000000002'' ''1700000000003''
          (Some ''miner'') True ex3 = Some (q, s')" by auto
  then have "ex4 = s'" by (simp add: ex4_def)
  with r show ?thesis by blast
qed

lemma ex_reachable:
  "reachable_from exampleLib (initial exampleLib) ex3"
  "reachable_from exampleLib (initial exampleLib) ex4"
proof -
  have 1: "step exampleLib (initial exampleLib) ex1"
    by (rule step.status[of "Some True" _ "fst (setElectionStatus (Some True) (initial exampleLib))"])
       (simp add: ex1_def)
  have 2: "step exampleLib ex1 ex2"
    by (rule step.register[of "''v1''" _ "fst (registerVoter ''v1'' ex1)"]) (simp add: ex2_def)
  have 3: "step exampleLib ex2 ex3"
    by (rule step.vote[of "''1700000000001''" "''v1''" "''candidateA''" _
          "fst (createVote ''1700000000001'' ''v1'' ''candidateA'' ex2)"]) (simp add: ex3_def)
  from ex_mine obtain q where "minePendingTransactions exampleLib ''1700000000002'' ''1700000000003''
          (Some ''miner'') True ex3 = Some (q, ex4)" by blast
  then have 4: "step exampleLib ex3 ex4" by (rule step.mine)
  have r3: "rtranclp (step exampleLib) (initial exampleLib) ex3"
    using 1 2 3 by (meson rtranclp.rtrancl_into_rtrancl rtranclp.rtrancl_refl)
  then show "reachable_from exampleLib (initial exampleLib) ex3"
    by (simp add: reachable_from_def)
  from rtranclp.rtrancl_into_rtrancl[OF r3 4]
  show "reachable_from exampleLib (initial exampleLib) ex4"
    by (simp add: reachable_from_def)
qed

lemma ex_failed:
  "\<exists>q. minePendingTransactions exampleLib ''1700000000002'' ''1700000000003''
          (Some ''miner'') False ex3 = Some (q, exFailed)"
proof -
  have "minePendingTransactions exampleLib ''1700000000002'' ''1700000000003''
          (Some ''miner'') False ex3 \<noteq> None"
    by code_simp
  then obtain q s' where r: "minePendingTransactions exampleLib ''1700000000002'' ''1700000000003''
          (Some ''miner'') False ex3 = Some (q, s')" by auto
  then have "exFailed = s'" by (simp add: exFailed_def)
  with r show ?thesis by blast
qed

lemma ex_retry:
  "\<exists>q. minePendingTransactions exampleLib ''1700000000004'' ''1700000000005''
          (Some ''miner'') True exFailed = Some (q, exRetry)"
proof -
  have "minePendingTransactions exampleLib ''1700000000004'' ''1700000000005''
          (Some ''miner'') True exFailed \<noteq> None"
    by code_simp
  then obtain q s' where r: "minePendingTransactions exampleLib ''1700000000004'' ''1700000000005''
          (Some ''miner'') True exFailed = Some (q, s')" by auto
  then have "exRetry = s'" by (simp add: exRetry_def)
  with r show ?thesis by blast
qed

lemma ex_no_reward:
  "\<exists>q. minePendingTransactions exampleLib ''1700000000002'' ''1700000000003''
          (Some []) True ex3 = Some (q, exNoReward)"
proof -
  have "minePendingTransactions exampleLib ''1700000000002'' ''1700000000003''
          (Some []) True ex3 \<noteq> None"
    by code_simp
  then obtain q s' where r: "minePendingTransactions exampleLib ''1700000000002'' ''1700000000003''
          (Some []) True ex3 = Some (q, s')" by auto
  then have "exNoReward = s'" by (simp add: exNoReward_def)
  with r show ?thesis by blast
qed

subsection \<open>The chain invariant\<close>

text \<open>
  C2. In every state that calls of \<open>createVote\<close>, \<open>minePendingTransactions\<close> (whether
  the store accepts the block or not), \<open>registerVoter\<close> and \<open>setElectionStatus\<close> lead to
  from the chain that holds the genesis block alone, every block sits at its index,
  stores the hash computed from its fields, and, from index 1 on, stores the hash of the
  block before it as its previous hash.
\<close>

theorem reachable_chain_linked:
  "reachable_from L (initial L) s \<Longrightarrow>
     (\<forall>i < length (chain s).
        index (chain s ! i) = i
      \<and> hash (chain s ! i) = calculateHash L (heap s) (chain s ! i)
      \<and> (0 < i \<longrightarrow> previousHash (chain s ! i) = hash (chain s ! (i - 1))))"
  using reachable_sound[of L s] by (simp add: sound_def chain_linked_def)

theorem reachable_chain_linked_witness:
  "reachable_from exampleLib (initial exampleLib) ex4
   \<and> length (chain ex4) = 2
   \<and> index (chain ex4 ! 1) = 1
   \<and> hash (chain ex4 ! 1) = calculateHash exampleLib (heap ex4) (chain ex4 ! 1)
   \<and> previousHash (chain ex4 ! 1) = hash (chain ex4 ! 0)
   \<and> hash (chain ex4 ! 0) = calculateHash exampleLib (heap ex4) (chain ex4 ! 0)"
proof -
  have len: "length (chain ex4) = 2" by (simp add: ex4_chain)
  from reachable_chain_linked[OF ex_reachable(2)] len
  have "\<forall>i<2. index (chain ex4 ! i) = i
      \<and> hash (chain ex4 ! i) = calculateHash exampleLib (heap ex4) (chain ex4 ! i)
      \<and> (0 < i \<longrightarrow> previousHash (chain ex4 ! i) = hash (chain ex4 ! (i - 1)))" by simp
  from this[rule_format, of 1] this[rule_format, of 0] ex_reachable(2) len
  show ?thesis by simp
qed

subsection \<open>Admission leaves everything but the pool as it is\<close>

text \<open>
  C6. A call of \<open>createVote\<close> that fails leaves the whole state as it was. A call that
  succeeds appends one vote with the given voter and candidate at the end of the pending
  pool and changes nothing else: every other array and every other field of the state
  is as before, and the voter is not in \<open>votedUsers\<close>; the voter is there once a mining
  run on that state has completed. The call ends in one of the five errors or succeeds.
\<close>

theorem createVote_frame:
  "(\<forall>e. fst (createVote now voterId candidateId s) = Inl e
        \<longrightarrow> snd (createVote now voterId candidateId s) = s)
   \<and> (fst (createVote now voterId candidateId s) = Inr True \<longrightarrow>
        pool (snd (createVote now voterId candidateId s)) = pool s @ [Vote voterId candidateId now]
      \<and> (\<forall>a. a \<noteq> pendingTransactions s
              \<longrightarrow> heap (snd (createVote now voterId candidateId s)) a = heap s a)
      \<and> snd (createVote now voterId candidateId s)
          = s\<lparr>heap := heap (snd (createVote now voterId candidateId s))\<rparr>
      \<and> voterId \<notin> votedUsers (snd (createVote now voterId candidateId s))
      \<and> (\<forall>L now1 now2 minerAddress q s''.
            chain s \<noteq> []
          \<and> minePendingTransactions L now1 now2 minerAddress True
               (snd (createVote now voterId candidateId s)) = Some (q, s'')
          \<longrightarrow> voterId \<in> votedUsers s''))
   \<and> (fst (createVote now voterId candidateId s)
         \<in> {Inl ElectionClosed, Inl InvalidInput, Inl UnknownCandidate,
             Inl VoterNotRegistered, Inl DuplicateVote, Inr True})"
proof -
  let ?s1 = "snd (createVote now voterId candidateId s)"
  have sealed: "voterId \<in> votedUsers s''"
    if ok: "fst (createVote now voterId candidateId s) = Inr True"
      and ch: "chain s \<noteq> []"
      and run: "minePendingTransactions L now1 now2 minerAddress True ?s1 = Some (q, s'')"
    for L now1 now2 minerAddress q s''
  proof -
    from ok have v: "voterId \<noteq> []" and p: "pool ?s1 = pool s @ [Vote voterId candidateId now]"
      and c: "chain ?s1 = chain s"
      by (auto simp: createVote_def push_def pool_def split: if_splits)
    from run show ?thesis
    proof (cases rule: minePendingTransactions_cases)
      case nothing
      with p show ?thesis by simp
    next
      case no_chain
      with c ch show ?thesis by simp
    next
      case (failed b)
      then show ?thesis by simp
    next
      case (mined b)
      from mined(6) have "votedUsers s'' = foldl addVoted (votedUsers ?s1) (pool ?s1)" by simp
      with p v show ?thesis by (auto simp: addVoted_fold addVoted_def)
    qed
  qed
  have rest: "(\<forall>e. fst (createVote now voterId candidateId s) = Inl e \<longrightarrow> ?s1 = s)
   \<and> (fst (createVote now voterId candidateId s) = Inr True \<longrightarrow>
        pool ?s1 = pool s @ [Vote voterId candidateId now]
      \<and> (\<forall>a. a \<noteq> pendingTransactions s \<longrightarrow> heap ?s1 a = heap s a)
      \<and> ?s1 = s\<lparr>heap := heap ?s1\<rparr>
      \<and> voterId \<notin> votedUsers ?s1)
   \<and> (fst (createVote now voterId candidateId s)
         \<in> {Inl ElectionClosed, Inl InvalidInput, Inl UnknownCandidate,
             Inl VoterNotRegistered, Inl DuplicateVote, Inr True})"
    by (simp add: createVote_def push_def pool_def)
  from rest sealed show ?thesis by blast
qed

theorem createVote_frame_witness:
  "fst (createVote ''1700000000001'' ''v1'' ''candidateA'' ex2) = Inr True
   \<and> pool ex2 = []
   \<and> pool ex3 = [Vote ''v1'' ''candidateA'' ''1700000000001'']
   \<and> ''v1'' \<notin> votedUsers ex3
   \<and> chain ex2 \<noteq> []
   \<and> ''v1'' \<in> votedUsers ex4
   \<and> fst (createVote ''1700000000001'' ''ghost'' ''candidateA'' ex2) = Inl VoterNotRegistered
   \<and> snd (createVote ''1700000000001'' ''ghost'' ''candidateA'' ex2) = ex2"
proof -
  have ok: "fst (createVote ''1700000000001'' ''v1'' ''candidateA'' ex2) = Inr True"
    by code_simp
  have no: "fst (createVote ''1700000000001'' ''ghost'' ''candidateA'' ex2) = Inl VoterNotRegistered"
    by code_simp
  have p2: "pool ex2 = []" by code_simp
  have c2: "chain ex2 \<noteq> []" by code_simp
  from ex_mine obtain q where run: "minePendingTransactions exampleLib ''1700000000002''
      ''1700000000003'' (Some ''miner'') True
      (snd (createVote ''1700000000001'' ''v1'' ''candidateA'' ex2)) = Some (q, ex4)"
    by (auto simp: ex3_def)
  from createVote_frame [of "''1700000000001''" "''v1''" "''candidateA''" ex2] ok p2 c2 run
  have "pool ex3 = [Vote ''v1'' ''candidateA'' ''1700000000001'']"
    "''v1'' \<notin> votedUsers ex3" "''v1'' \<in> votedUsers ex4"
    unfolding ex3_def by (simp, simp, blast)
  moreover from createVote_frame [of "''1700000000001''" "''ghost''" "''candidateA''" ex2] no
  have "snd (createVote ''1700000000001'' ''ghost'' ''candidateA'' ex2) = ex2"
    by blast
  ultimately show ?thesis using ok no p2 c2 by simp
qed

subsection \<open>What a mining run does\<close>

text \<open>
  C4, as amended. For one call of \<open>minePendingTransactions\<close>, run with no other call
  overlapping it, in every state the ledger reaches from a loaded state: on an empty
  pool the call answers "nothing to mine" and leaves the state as it is. On a pool that
  is not empty the call returns exactly when some number of turns of the sealing loop
  gives the new block a hash with the required zeros, and it then has appended exactly
  one block, whether the store accepts the block or not. The data of that block is a new
  array, shared neither with the pool before the run nor with the pool after it, and
  holds the transactions of the pool as they were when the run began; whatever calls
  follow, the block stays where it is in the chain with the same transactions. When the
  store accepts the block, the call returns the block, and the pool afterwards holds
  exactly one reward when a miner address was given and is not the empty string, and
  nothing when none was given or the empty string was given; the reward is pushed onto
  the new pool array, after the copy, so it is not among the transactions of the block.
  \<open>votedUsers\<close> has grown by the voters of the votes of the block.
\<close>

theorem minePendingTransactions_seals:
  assumes "loaded s0" and "reachable_from L s0 s"
  shows "(pool s = [] \<longrightarrow>
            minePendingTransactions L now1 now2 minerAddress saveOk s = Some (Inr NothingToMine, s))
   \<and> (pool s \<noteq> [] \<longrightarrow>
        ((\<exists>q s'. minePendingTransactions L now1 now2 minerAddress saveOk s = Some (q, s'))
           \<longleftrightarrow> (\<exists>k. take (difficulty s) (hash ((nextNonce L (copiedHeap s) ^^ k) (blockToSeal L now1 s)))
                      = replicate (difficulty s) (CHR ''0'')))
      \<and> (\<forall>q s'. minePendingTransactions L now1 now2 minerAddress saveOk s = Some (q, s') \<longrightarrow>
           (\<exists>b. chain s' = chain s @ [b]
               \<and> data b = DataArray (nextAddr s)
               \<and> nextAddr s \<noteq> pendingTransactions s \<and> nextAddr s \<noteq> pendingTransactions s'
               \<and> block_txs (heap s') b = pool s
               \<and> (\<forall>s''. reachable_from L s' s'' \<longrightarrow>
                     take (length (chain s')) (chain s'') = chain s'
                   \<and> block_txs (heap s'') b = pool s)
               \<and> (saveOk \<longrightarrow>
                     q = Inr (Mined b)
                   \<and> (minerAddress = None \<or> minerAddress = Some [] \<longrightarrow> pool s' = [])
                   \<and> (\<forall>m. minerAddress = Some m \<and> m \<noteq> [] \<longrightarrow>
                         pool s' = [MiningReward m (miningReward s) now2])
                   \<and> votedUsers s' = votedUsers s \<union> {v. \<exists>c t. Vote v c t \<in> set (pool s)}
                   \<and> (\<forall>v c t. Vote v c t \<in> set (block_txs (heap s') b) \<longrightarrow> v \<in> votedUsers s')))))"
proof (intro conjI impI allI)
  assume "pool s = []"
  then show "minePendingTransactions L now1 now2 minerAddress saveOk s = Some (Inr NothingToMine, s)"
    by (simp add: minePendingTransactions_def)
next
  assume ne: "pool s \<noteq> []"
  from reachable_keeps_blocks[OF loaded_safe[OF assms(1)] assms(2)] have "chain s \<noteq> []"
    by (simp add: safe_def)
  from minePendingTransactions_returns_iff[OF ne this] mineBlock_returns_iff
  show "(\<exists>q s'. minePendingTransactions L now1 now2 minerAddress saveOk s = Some (q, s'))
           \<longleftrightarrow> (\<exists>k. take (difficulty s) (hash ((nextNonce L (copiedHeap s) ^^ k) (blockToSeal L now1 s)))
                      = replicate (difficulty s) (CHR ''0''))"
    by simp
next
  fix q s'
  assume ne: "pool s \<noteq> []"
    and run: "minePendingTransactions L now1 now2 minerAddress saveOk s = Some (q, s')"
  from reachable_keeps_blocks[OF loaded_safe[OF assms(1)] assms(2)] have safe: "safe s" by simp
  then have wf: "pendingTransactions s < nextAddr s" and vo: "votes_ok (candidates s) (pool s)"
    by (simp_all add: safe_def heap_wf_def)
  from run have st: "step L s s'" by (rule step.mine)
  from step_safe[OF safe st] have safe': "safe s'" .
  have later: "take (length (chain s')) (chain s'') = chain s' \<and> block_txs (heap s'') b = pool s"
    if r: "reachable_from L s' s''" and ch: "chain s' = chain s @ [b]"
      and bt: "block_txs (heap s') b = pool s" for s'' b
  proof -
    from reachable_keeps_blocks[OF safe' r] obtain bs where
      c2: "chain s'' = chain s' @ bs"
      and k: "\<forall>x \<in> set (chain s'). data_of (heap s'') (data x) = data_of (heap s') (data x)"
      by blast
    from ch have "b \<in> set (chain s')" by simp
    with k have "data_of (heap s'') (data b) = data_of (heap s') (data b)" by blast
    from block_txs_data_of[OF this] bt c2 show ?thesis by simp
  qed
  from run show "\<exists>b. chain s' = chain s @ [b]
               \<and> data b = DataArray (nextAddr s)
               \<and> nextAddr s \<noteq> pendingTransactions s \<and> nextAddr s \<noteq> pendingTransactions s'
               \<and> block_txs (heap s') b = pool s
               \<and> (\<forall>s''. reachable_from L s' s'' \<longrightarrow>
                     take (length (chain s')) (chain s'') = chain s'
                   \<and> block_txs (heap s'') b = pool s)
               \<and> (saveOk \<longrightarrow>
                     q = Inr (Mined b)
                   \<and> (minerAddress = None \<or> minerAddress = Some [] \<longrightarrow> pool s' = [])
                   \<and> (\<forall>m. minerAddress = Some m \<and> m \<noteq> [] \<longrightarrow>
                         pool s' = [MiningReward m (miningReward s) now2])
                   \<and> votedUsers s' = votedUsers s \<union> {v. \<exists>c t. Vote v c t \<in> set (pool s)}
                   \<and> (\<forall>v c t. Vote v c t \<in> set (block_txs (heap s') b) \<longrightarrow> v \<in> votedUsers s'))"
  proof (cases rule: minePendingTransactions_cases)
    case nothing
    with ne show ?thesis by simp
  next
    case no_chain
    with safe show ?thesis by (simp add: safe_def)
  next
    case (failed b)
    from mineBlock_Some[OF failed(5)] have d: "data b = DataArray (nextAddr s)" by simp
    have ch: "chain s' = chain s @ [b]" using failed(6) by simp
    have bt: "block_txs (heap s') b = pool s" using failed(6) d by (simp add: block_txs_def)
    have pd: "pendingTransactions s' = pendingTransactions s" using failed(6) by simp
    from failed(3) ch d wf pd bt later[OF _ ch bt] show ?thesis by auto
  next
    case (mined b)
    from mineBlock_Some[OF mined(5)] have d: "data b = DataArray (nextAddr s)" by simp
    have ch: "chain s' = chain s @ [b]" using mined(6) by simp
    have bt: "block_txs (heap s') b = pool s" using mined(6) d by (simp add: block_txs_def)
    have pd: "pendingTransactions s' = Suc (nextAddr s)" using mined(6) by simp
    have pl: "pool s' = rewardFor minerAddress (miningReward s) now2"
      using mined(6) by (simp add: pool_def)
    have vs: "votedUsers s' = votedUsers s \<union> {v. \<exists>c t. Vote v c t \<in> set (pool s)}"
      using mined(6) vo by (auto simp: addVoted_fold votes_ok_def)
    from mined(4) ch d wf pd bt later[OF _ ch bt] pl vs show ?thesis
      by (auto simp: rewardFor_def)
  qed
qed

theorem minePendingTransactions_seals_witness:
  "loaded (initial exampleLib)
   \<and> reachable_from exampleLib (initial exampleLib) ex3
   \<and> pool (initial exampleLib) = []
   \<and> minePendingTransactions exampleLib ''1700000000002'' ''1700000000003'' (Some ''miner'') True
        (initial exampleLib) = Some (Inr NothingToMine, initial exampleLib)
   \<and> pool ex3 = [Vote ''v1'' ''candidateA'' ''1700000000001'']
   \<and> take (difficulty ex3)
        (hash ((nextNonce exampleLib (copiedHeap ex3) ^^ 1) (blockToSeal exampleLib ''1700000000002'' ex3)))
       = replicate (difficulty ex3) (CHR ''0'')
   \<and> minePendingTransactions exampleLib ''1700000000002'' ''1700000000003'' (Some ''miner'') True ex3
        = Some (Inr (Mined exBlock1), ex4)
   \<and> chain ex4 = chain ex3 @ [exBlock1]
   \<and> block_txs (heap ex4) exBlock1 = [Vote ''v1'' ''candidateA'' ''1700000000001'']
   \<and> pool ex4 = [MiningReward ''miner'' 1 ''1700000000003'']
   \<and> votedUsers ex3 = {} \<and> votedUsers ex4 = {''v1''}"
proof -
  have r0: "reachable_from exampleLib (initial exampleLib) (initial exampleLib)"
    by (simp add: reachable_from_def)
  note thm0 = minePendingTransactions_seals [where L = exampleLib and s = "initial exampleLib"
      and ?s0.0 = "initial exampleLib" and ?now1.0 = "''1700000000002''"
      and ?now2.0 = "''1700000000003''" and minerAddress = "Some ''miner''" and saveOk = True,
      OF initial_loaded r0]
  note thm3 = minePendingTransactions_seals [where L = exampleLib and s = ex3
      and ?s0.0 = "initial exampleLib" and ?now1.0 = "''1700000000002''"
      and ?now2.0 = "''1700000000003''" and minerAddress = "Some ''miner''" and saveOk = True,
      OF initial_loaded ex_reachable(1)]
  have p0: "pool (initial exampleLib) = []" by (simp add: initial_def pool_def emptyHeap_def)
  have p3: "pool ex3 = [Vote ''v1'' ''candidateA'' ''1700000000001'']" by code_simp
  have c3: "chain ex3 = [exGenesis]" by code_simp
  have v3: "votedUsers ex3 = {}" by code_simp
  have m3: "miningReward ex3 = 1" by code_simp
  have z: "take (difficulty ex3)
        (hash ((nextNonce exampleLib (copiedHeap ex3) ^^ 1) (blockToSeal exampleLib ''1700000000002'' ex3)))
       = replicate (difficulty ex3) (CHR ''0'')"
    by code_simp
  from thm3 p3 have iff: "(\<exists>q s'. minePendingTransactions exampleLib ''1700000000002''
      ''1700000000003'' (Some ''miner'') True ex3 = Some (q, s'))
     \<longleftrightarrow> (\<exists>k. take (difficulty ex3)
        (hash ((nextNonce exampleLib (copiedHeap ex3) ^^ k) (blockToSeal exampleLib ''1700000000002'' ex3)))
       = replicate (difficulty ex3) (CHR ''0''))"
    by simp
  from z have "\<exists>k. take (difficulty ex3)
        (hash ((nextNonce exampleLib (copiedHeap ex3) ^^ k) (blockToSeal exampleLib ''1700000000002'' ex3)))
       = replicate (difficulty ex3) (CHR ''0'')"
    by (rule exI[of _ 1])
  with iff obtain q s' where run': "minePendingTransactions exampleLib ''1700000000002''
      ''1700000000003'' (Some ''miner'') True ex3 = Some (q, s')"
    by blast
  then have "ex4 = s'" by (simp add: ex4_def)
  with run' have run: "minePendingTransactions exampleLib ''1700000000002''
      ''1700000000003'' (Some ''miner'') True ex3 = Some (q, ex4)" by simp
  from thm3 p3 run obtain b where b: "q = Inr (Mined b)" "chain ex4 = chain ex3 @ [b]"
      "block_txs (heap ex4) b = pool ex3"
      "pool ex4 = [MiningReward ''miner'' (miningReward ex3) ''1700000000003'']"
      "votedUsers ex4 = votedUsers ex3 \<union> {v. \<exists>c t. Vote v c t \<in> set (pool ex3)}"
    by auto
  from b(2) c3 ex4_chain have be: "b = exBlock1" by simp
  from b(5) v3 p3 have v4: "votedUsers ex4 = {''v1''}" by auto
  from thm0 p0 have n0: "minePendingTransactions exampleLib ''1700000000002''
      ''1700000000003'' (Some ''miner'') True (initial exampleLib)
        = Some (Inr NothingToMine, initial exampleLib)" by simp
  from initial_loaded ex_reachable(1) p0 n0 p3 z run b be m3 v3 v4 show ?thesis by simp
qed

text \<open>
  With the empty string given as miner address the run seals the block and leaves the
  pool empty: the test \<^verbatim>\<open>if (minerAddress)\<close> takes the empty string as no address.
\<close>

theorem minePendingTransactions_reward_counterexample:
  "minePendingTransactions exampleLib ''1700000000002'' ''1700000000003'' (Some []) True ex3
     = Some (Inr (Mined exBlock1), exNoReward)
   \<and> pool exNoReward = []"
proof -
  from ex_no_reward obtain q where run: "minePendingTransactions exampleLib ''1700000000002''
      ''1700000000003'' (Some []) True ex3 = Some (q, exNoReward)" by blast
  have c: "chain exNoReward = [exGenesis, exBlock1]" by code_simp
  have c3: "chain ex3 = [exGenesis]" by code_simp
  have p: "pool exNoReward = []" by code_simp
  from run have "q = Inr (Mined exBlock1)"
  proof (cases rule: minePendingTransactions_cases)
    case (mined b)
    from arg_cong[OF mined(6), of chain] have "chain exNoReward = chain ex3 @ [b]" by simp
    with c c3 mined(4) show ?thesis by simp
  next
    case nothing
    with c c3 show ?thesis by simp
  next
    case no_chain
    with c3 show ?thesis by simp
  next
    case (failed b)
    then show ?thesis by simp
  qed
  with run p show ?thesis by simp
qed

text \<open>
  C10. When the store refuses the new block, \<open>minePendingTransactions\<close> throws
  \<open>FailedToSaveBlock\<close> with the sealed block appended to the chain, the pool array the
  same and holding the transactions just sealed (so no reward was pushed), and
  \<open>votedUsers\<close> as before. A later run that completes seals the same transactions into a
  second block.
\<close>

theorem minePendingTransactions_save_failure:
  assumes "pool s \<noteq> []" and "chain s \<noteq> []"
    and "minePendingTransactions L now1 now2 minerAddress False s = Some (q, s')"
  shows "q = Inl FailedToSaveBlock
     \<and> (\<exists>b. chain s' = chain s @ [b]
           \<and> block_txs (heap s') b = pool s
           \<and> pendingTransactions s' = pendingTransactions s
           \<and> pool s' = pool s
           \<and> votedUsers s' = votedUsers s
           \<and> (\<forall>now3 now4 minerAddress2 q2 s''.
                 minePendingTransactions L now3 now4 minerAddress2 True s' = Some (q2, s'') \<longrightarrow>
                 (\<exists>b2. q2 = Inr (Mined b2)
                      \<and> chain s'' = chain s @ [b, b2]
                      \<and> block_txs (heap s'') b = pool s
                      \<and> block_txs (heap s'') b2 = pool s)))"
  using assms(3)
proof (cases rule: minePendingTransactions_cases)
  case nothing
  with assms(1) show ?thesis by simp
next
  case no_chain
  with assms(2) show ?thesis by simp
next
  case (mined b)
  then show ?thesis by simp
next
  case (failed b)
  from mineBlock_Some[OF failed(5)] have d: "data b = DataArray (nextAddr s)" by simp
  have ch: "chain s' = chain s @ [b]" using failed(6) by simp
  have bt: "block_txs (heap s') b = pool s" using failed(6) d by (simp add: block_txs_def)
  have pd: "pendingTransactions s' = pendingTransactions s" using failed(6) by simp
  have pl: "pool s' = pool s" using failed(6) by (simp add: pool_def)
  have vs: "votedUsers s' = votedUsers s" using failed(6) by simp
  have nx: "nextAddr s' = Suc (nextAddr s)" using failed(6) by simp
  have again: "\<exists>b2. q2 = Inr (Mined b2) \<and> chain s'' = chain s @ [b, b2]
        \<and> block_txs (heap s'') b = pool s \<and> block_txs (heap s'') b2 = pool s"
    if run2: "minePendingTransactions L now3 now4 minerAddress2 True s' = Some (q2, s'')"
    for now3 now4 minerAddress2 q2 s''
    using run2
  proof (cases rule: minePendingTransactions_cases)
    case nothing
    with pl assms(1) show ?thesis by simp
  next
    case no_chain
    with ch show ?thesis by simp
  next
    case (failed c)
    then show ?thesis by simp
  next
    case (mined b2)
    from mineBlock_Some[OF mined(5)] nx have d2: "data b2 = DataArray (Suc (nextAddr s))" by simp
    have "chain s'' = chain s @ [b, b2]" using mined(6) ch by simp
    moreover have "block_txs (heap s'') b2 = pool s"
      using mined(6) d2 nx pl by (simp add: block_txs_def)
    moreover have "block_txs (heap s'') b = pool s"
      using mined(6) d nx bt by (simp add: block_txs_def)
    ultimately show ?thesis using mined(4) by simp
  qed
  from failed(4) ch bt pd pl vs again show ?thesis by blast
qed

theorem minePendingTransactions_save_failure_witness:
  "pool ex3 = [Vote ''v1'' ''candidateA'' ''1700000000001'']
   \<and> chain ex3 = [exGenesis]
   \<and> minePendingTransactions exampleLib ''1700000000002'' ''1700000000003'' (Some ''miner'') False ex3
        = Some (Inl FailedToSaveBlock, exFailed)
   \<and> chain exFailed = [exGenesis, exBlock1]
   \<and> pool exFailed = [Vote ''v1'' ''candidateA'' ''1700000000001'']
   \<and> votedUsers exFailed = {}
   \<and> minePendingTransactions exampleLib ''1700000000004'' ''1700000000005'' (Some ''miner'') True exFailed
        = Some (Inr (Mined exBlock2), exRetry)
   \<and> chain exRetry = [exGenesis, exBlock1, exBlock2]
   \<and> block_txs (heap exRetry) exBlock1 = [Vote ''v1'' ''candidateA'' ''1700000000001'']
   \<and> block_txs (heap exRetry) exBlock2 = [Vote ''v1'' ''candidateA'' ''1700000000001'']"
proof -
  have p3: "pool ex3 = [Vote ''v1'' ''candidateA'' ''1700000000001'']" by code_simp
  have c3: "chain ex3 = [exGenesis]" by code_simp
  have v3: "votedUsers ex3 = {}" by code_simp
  have cr: "chain exRetry = [exGenesis, exBlock1, exBlock2]" by code_simp
  from ex_failed obtain q where run: "minePendingTransactions exampleLib ''1700000000002''
      ''1700000000003'' (Some ''miner'') False ex3 = Some (q, exFailed)" by blast
  from ex_retry obtain q2 where run2: "minePendingTransactions exampleLib ''1700000000004''
      ''1700000000005'' (Some ''miner'') True exFailed = Some (q2, exRetry)" by blast
  have ne: "pool ex3 \<noteq> []" "chain ex3 \<noteq> []" using p3 c3 by simp_all
  from minePendingTransactions_save_failure[OF ne run] run2
  obtain b b2 where f: "q = Inl FailedToSaveBlock" "chain exFailed = chain ex3 @ [b]"
      "pool exFailed = pool ex3" "votedUsers exFailed = votedUsers ex3"
      "q2 = Inr (Mined b2)" "chain exRetry = chain ex3 @ [b, b2]"
      "block_txs (heap exRetry) b = pool ex3" "block_txs (heap exRetry) b2 = pool ex3"
    by blast
  from f(6) c3 cr have "b = exBlock1" "b2 = exBlock2" by simp_all
  with f p3 c3 v3 run run2 cr show ?thesis by simp
qed

section \<open>Tallying\<close>

lemma initResult_fold:
  "dom (foldl initResult res cs) = dom res \<union> id_c ` set cs
   \<and> ((\<forall>c \<in> dom res. votesFor res c = 0)
        \<longrightarrow> (\<forall>c \<in> dom (foldl initResult res cs). votesFor (foldl initResult res cs) c = 0))"
proof (induction cs arbitrary: res)
  case Nil
  then show ?case by simp
next
  case (Cons x cs)
  have d: "dom (initResult res x) = insert (id_c x) (dom res)"
    by (simp add: initResult_def)
  have z: "(\<forall>c \<in> dom res. votesFor res c = 0)
        \<Longrightarrow> (\<forall>c \<in> dom (initResult res x). votesFor (initResult res x) c = 0)"
    by (auto simp: initResult_def votesFor_def)
  from Cons.IH[of "initResult res x"] d z show ?case by auto
qed

lemma countTransaction_effect:
  "dom (countTransaction res tr) = dom res
   \<and> votesFor (countTransaction res tr) c
       = votesFor res c + (if c \<in> dom res \<and> isVoteFor c tr then 1 else 0)"
  by (cases tr) (auto simp: countTransaction_def votesFor_def isVoteFor_def split: option.splits)

lemma countTransaction_fold:
  "dom (foldl countTransaction res txs) = dom res
   \<and> votesFor (foldl countTransaction res txs) c
       = votesFor res c + (if c \<in> dom res then length (filter (isVoteFor c) txs) else 0)"
proof (induction txs arbitrary: res)
  case Nil
  then show ?case by simp
next
  case (Cons x txs)
  from Cons.IH[of "countTransaction res x"] countTransaction_effect[of res x c]
  show ?case by simp
qed

lemma countBlock_effect:
  "dom (countBlock h res b) = dom res
   \<and> votesFor (countBlock h res b) c
       = votesFor res c + (if c \<in> dom res then length (filter (isVoteFor c) (block_txs h b)) else 0)"
  by (cases "data b") (simp_all add: countBlock_def block_txs_def countTransaction_fold)

lemma countBlock_fold:
  "dom (foldl (countBlock h) res bs) = dom res
   \<and> votesFor (foldl (countBlock h) res bs) c
       = votesFor res c
         + (if c \<in> dom res then length (filter (isVoteFor c) (concat (map (block_txs h) bs))) else 0)"
proof (induction bs arbitrary: res)
  case Nil
  then show ?case by simp
next
  case (Cons x bs)
  from Cons.IH[of "countBlock h res x"] countBlock_effect[of h res x c]
  show ?case by simp
qed

lemma getElectionResults_counts:
  "dom (fst (getElectionResults s)) = id_c ` set (candidates s)
   \<and> (c \<in> id_c ` set (candidates s) \<longrightarrow>
        votesFor (fst (getElectionResults s)) c = length (filter (isVoteFor c) (chain_txs s)))"
proof -
  let ?r0 = "foldl initResult Map.empty (candidates s)"
  from initResult_fold[of Map.empty "candidates s"]
  have d: "dom ?r0 = id_c ` set (candidates s)" and z: "\<forall>c \<in> dom ?r0. votesFor ?r0 c = 0"
    by simp_all
  from countBlock_fold[of "heap s" ?r0 "chain s" c] d z show ?thesis
    by (auto simp: getElectionResults_def chain_txs_def)
qed

lemma sum_isVoteFor:
  assumes "finite D"
  shows "(\<Sum>c \<in> D. length (filter (isVoteFor c) txs))
         = length (filter (\<lambda>tr. \<exists>c \<in> D. isVoteFor c tr) txs)"
proof (induction txs)
  case Nil
  then show ?case by simp
next
  case (Cons x txs)
  have one: "(\<Sum>c \<in> D. if isVoteFor c x then 1 else 0) = (if \<exists>c \<in> D. isVoteFor c x then 1 else (0::nat))"
  proof (cases x)
    case (Vote v c' t)
    then have "(\<Sum>c \<in> D. if isVoteFor c x then 1 else 0) = (\<Sum>c \<in> D. if c' = c then 1 else (0::nat))"
      by (simp add: isVoteFor_def)
    also have "\<dots> = (if c' \<in> D then 1 else 0)"
      using assms by simp
    finally show ?thesis using Vote by (auto simp: isVoteFor_def)
  next
    case (MiningReward a n t)
    then show ?thesis by (simp add: isVoteFor_def)
  qed
  have "(\<Sum>c \<in> D. length (filter (isVoteFor c) (x # txs)))
        = (\<Sum>c \<in> D. (if isVoteFor c x then 1 else 0) + length (filter (isVoteFor c) txs))"
    by (rule sum.cong) simp_all
  also have "\<dots> = (\<Sum>c \<in> D. if isVoteFor c x then 1 else 0) + (\<Sum>c \<in> D. length (filter (isVoteFor c) txs))"
    by (simp add: sum.distrib)
  finally show ?case using one Cons.IH by simp
qed

lemma getElectionResults_total:
  "totalVotes (fst (getElectionResults s))
     = length (filter (\<lambda>tr. \<exists>c \<in> id_c ` set (candidates s). isVoteFor c tr) (chain_txs s))"
proof -
  have "totalVotes (fst (getElectionResults s))
        = (\<Sum>c \<in> id_c ` set (candidates s). votesFor (fst (getElectionResults s)) c)"
    using getElectionResults_counts[of s] by (simp add: totalVotes_def)
  also have "\<dots> = (\<Sum>c \<in> id_c ` set (candidates s). length (filter (isVoteFor c) (chain_txs s)))"
    by (rule sum.cong) (use getElectionResults_counts[of s] in simp_all)
  also have "\<dots> = length (filter (\<lambda>tr. \<exists>c \<in> id_c ` set (candidates s). isVoteFor c tr) (chain_txs s))"
    by (rule sum_isVoteFor) simp
  finally show ?thesis .
qed

lemma sound_all_known:
  assumes "sound L s"
  shows "filter (\<lambda>tr. \<exists>c \<in> id_c ` set (candidates s). isVoteFor c tr) (chain_txs s)
         = filter isVote (chain_txs s)"
proof (rule filter_cong[OF refl])
  fix tr assume "tr \<in> set (chain_txs s)"
  then obtain b where b: "b \<in> set (chain s)" "tr \<in> set (block_txs (heap s) b)"
    by (auto simp: chain_txs_def)
  with assms have vo: "votes_ok (candidates s) (block_txs (heap s) b)" by (simp add: sound_def)
  show "(\<exists>c \<in> id_c ` set (candidates s). isVoteFor c tr) = isVote tr"
  proof (cases tr)
    case (Vote v c t)
    with vo b(2) have "c \<in> id_c ` set (candidates s)" by (auto simp: votes_ok_def)
    with Vote show ?thesis by (auto simp: isVoteFor_def isVote_def)
  next
    case (MiningReward a n t)
    then show ?thesis by (simp add: isVoteFor_def isVote_def)
  qed
qed

text \<open>
  C7, as amended. The result of \<open>getElectionResults\<close> has an entry for exactly the ids
  of the roster. The count of a candidate is the number of votes for that candidate in
  the blocks of the chain (so it is 0 when there is none), and the sum of the counts is
  the number of sealed votes whose candidate is on the roster: a vote for any other id
  is passed over. In every state reached from the chain that holds the genesis block
  alone all sealed votes are for candidates of the roster, and the sum is the number of
  all sealed votes. The state is returned as it was.
\<close>

theorem getElectionResults_tally:
  "dom (fst (getElectionResults s)) = id_c ` set (candidates s)
   \<and> (\<forall>c \<in> id_c ` set (candidates s).
         votesFor (fst (getElectionResults s)) c = length (filter (isVoteFor c) (chain_txs s)))
   \<and> totalVotes (fst (getElectionResults s))
       = length (filter (\<lambda>tr. \<exists>c \<in> id_c ` set (candidates s). isVoteFor c tr) (chain_txs s))
   \<and> (reachable_from L (initial L) s \<longrightarrow>
         totalVotes (fst (getElectionResults s)) = length (filter isVote (chain_txs s)))
   \<and> snd (getElectionResults s) = s"
  using getElectionResults_counts[of s] getElectionResults_total[of s]
    sound_all_known[of L s] reachable_sound[of L s]
  by (auto simp: getElectionResults_def)

theorem getElectionResults_tally_witness:
  "reachable_from exampleLib (initial exampleLib) ex4
   \<and> dom (fst (getElectionResults ex4)) = {''candidateA'', ''candidateB'', ''candidateC''}
   \<and> votesFor (fst (getElectionResults ex4)) ''candidateA'' = 1
   \<and> votesFor (fst (getElectionResults ex4)) ''candidateB'' = 0
   \<and> totalVotes (fst (getElectionResults ex4)) = 1
   \<and> length (filter isVote (chain_txs ex4)) = 1"
proof -
  have c: "id_c ` set (candidates ex4) = {''candidateA'', ''candidateB'', ''candidateC''}"
    by code_simp
  have a: "length (filter (isVoteFor ''candidateA'') (chain_txs ex4)) = 1"
    by code_simp
  have b: "length (filter (isVoteFor ''candidateB'') (chain_txs ex4)) = 0"
    by code_simp
  have v: "length (filter isVote (chain_txs ex4)) = 1"
    by code_simp
  from getElectionResults_tally[of ex4 exampleLib] ex_reachable(2) c a b v
  show ?thesis by simp
qed

text \<open>
  On the chain \<open>exUnknown\<close>, a loaded state, the one sealed vote is for \<open>candidateZ\<close>:
  the counts sum to 0 and the chain holds 1 vote.
\<close>

theorem getElectionResults_tally_counterexample:
  "loaded exUnknown
   \<and> totalVotes (fst (getElectionResults exUnknown)) = 0
   \<and> length (filter isVote (chain_txs exUnknown)) = 1
   \<and> totalVotes (fst (getElectionResults exUnknown))
       \<noteq> length (filter isVote (chain_txs exUnknown))"
proof -
  have "length (filter (\<lambda>tr. \<exists>c \<in> id_c ` set (candidates exUnknown). isVoteFor c tr)
          (chain_txs exUnknown)) = 0"
    by code_simp
  moreover have "length (filter isVote (chain_txs exUnknown)) = 1"
    by code_simp
  moreover have "loaded exUnknown"
    by (auto simp: loaded_def heap_wf_def pool_def exUnknown_def initial_def emptyHeap_def
        exGenesis_def createGenesisBlock_def exBlock1_def)
  ultimately show ?thesis by (simp add: getElectionResults_total)
qed

end
